theory Spec2Isabelle
  imports Complex_Main "HOL-Library.Monad_Syntax" "HOL-Library.AList"
begin

section \<open>XML elements\<close>

text \<open>
  An \<open>xml.etree.ElementTree.Element\<close>: a tag, the attribute dictionary (in insertion
  order, keys distinct) and the list of child elements.  Attribute values are strings,
  as in the source; the derived fields written by preprocessing are strings too.
\<close>

datatype element =
  Element (tag: string) (attrib: "(string \<times> string) list") (children: "element list")

text \<open>\<open>node.get(k)\<close>: the value, or \<open>None\<close> when the attribute is absent.\<close>

definition get :: "element \<Rightarrow> string \<Rightarrow> string option" where
  "get n k = map_of (attrib n) k"

text \<open>\<open>node.get(k, d)\<close>: the value, or the default \<open>d\<close>.\<close>

definition get_d :: "element \<Rightarrow> string \<Rightarrow> string \<Rightarrow> string" where
  "get_d n k d = (case map_of (attrib n) k of Some v \<Rightarrow> v | None \<Rightarrow> d)"

section \<open>Characters and decimal numbers\<close>

text \<open>
  Strings are byte strings here.  The character classes are the ASCII part of what
  Python's \<open>str\<close> methods and the \<open>re\<close> module use: \<open>\s\<close> and \<open>strip()\<close> take the
  characters 9 to 13, 28 to 31 and 32 as white space, \<open>\d\<close> the digits 0 to 9.
\<close>

definition is_space :: "char \<Rightarrow> bool" where
  "is_space c = (let k = (of_char c :: nat) in (9 \<le> k \<and> k \<le> 13) \<or> (28 \<le> k \<and> k \<le> 32))"

definition is_digit :: "char \<Rightarrow> bool" where
  "is_digit c = (let k = (of_char c :: nat) in 48 \<le> k \<and> k \<le> 57)"

definition digit_val :: "char \<Rightarrow> int" where
  "digit_val c = int (of_char c) - 48"

text \<open>\<open>int(s)\<close> on a non-empty run of digits.\<close>

definition int_of_digits :: "string \<Rightarrow> int" where
  "int_of_digits ds = foldl (\<lambda>acc c. 10 * acc + digit_val c) 0 ds"

section \<open>Coordinates (utils/element.py)\<close>

text \<open>
  \<open>bound_pattern\<close> is
  \<^verbatim>\<open>^\s*\[(?P<x0>\d+)\s*,\s*(?P<y0>\d+)]\[(?P<x1>\d+)\s*,\s*(?P<y1>\d+)]\s*$\<close>.
  Every token of the pattern starts with a character that the token before it cannot
  contain, so matching it is the deterministic left-to-right scan below.
\<close>

definition expect :: "char \<Rightarrow> string \<Rightarrow> string option" where
  "expect c s = (case s of [] \<Rightarrow> None | d # r \<Rightarrow> if d = c then Some r else None)"

definition number :: "string \<Rightarrow> (int \<times> string) option" where
  "number s =
     (let ds = takeWhile is_digit s
      in if ds = [] then None else Some (int_of_digits ds, dropWhile is_digit s))"

definition pair_of_numbers :: "string \<Rightarrow> ((int \<times> int) \<times> string) option" where
  "pair_of_numbers s = do {
     r \<leftarrow> expect (CHR ''['') s;
     (a, r) \<leftarrow> number r;
     r \<leftarrow> expect (CHR '','') (dropWhile is_space r);
     (b, r) \<leftarrow> number (dropWhile is_space r);
     r \<leftarrow> expect (CHR '']'') r;
     Some ((a, b), r)
   }"

definition match_bound :: "string \<Rightarrow> (int \<times> int \<times> int \<times> int) option" where
  "match_bound s = do {
     ((x0, y0), r) \<leftarrow> pair_of_numbers (dropWhile is_space s);
     ((x1, y1), r) \<leftarrow> pair_of_numbers r;
     if dropWhile is_space r = [] then Some (x0, y0, x1, y1) else None
   }"

text \<open>\<open>coordinates(node)\<close>: the four numbers, or \<open>(0, 0, 0, 0)\<close> when the pattern fails.\<close>

definition coordinates_str :: "string \<Rightarrow> int \<times> int \<times> int \<times> int" where
  "coordinates_str bounds = (case match_bound bounds of Some c \<Rightarrow> c | None \<Rightarrow> (0, 0, 0, 0))"

definition coordinates :: "element \<Rightarrow> int \<times> int \<times> int \<times> int" where
  "coordinates node = coordinates_str (get_d node ''bounds'' ''[0,0][0,0]'')"

section \<open>Geometry predicates (match/predictors.py)\<close>

definition is_overlap :: "element \<Rightarrow> element \<Rightarrow> bool" where
  "is_overlap a b =
     (case coordinates a of (ax0, ay0, ax1, ay1) \<Rightarrow>
      case coordinates b of (bx0, by0, bx1, by1) \<Rightarrow>
        let xmin = min ax1 ax1; xmax = max ax0 bx0;
            h_overlap = (xmin > xmax);
            ymin = min ay1 by1; ymax = max ay0 by0;
            v_overlap = (ymin > ymax)
        in h_overlap \<and> v_overlap)"

text \<open>The intersection test that the specification gives for \<open>is_overlap\<close>.\<close>

definition rectangles_intersect :: "element \<Rightarrow> element \<Rightarrow> bool" where
  "rectangles_intersect a b =
     (case coordinates a of (ax0, ay0, ax1, ay1) \<Rightarrow>
      case coordinates b of (bx0, by0, bx1, by1) \<Rightarrow>
        min ax1 bx1 > max ax0 bx0 \<and> min ay1 by1 > max ay0 by0)"

section \<open>String normalisation\<close>

text \<open>\<open>str.lower()\<close> on the ASCII letters; other bytes are left as they are.\<close>

definition lower_char :: "char \<Rightarrow> char" where
  "lower_char c =
     (case map_of (zip ''ABCDEFGHIJKLMNOPQRSTUVWXYZ'' ''abcdefghijklmnopqrstuvwxyz'') c of
        Some d \<Rightarrow> d | None \<Rightarrow> c)"

definition lower :: "string \<Rightarrow> string" where
  "lower s = map lower_char s"

text \<open>\<open>str.strip()\<close>: white space removed at both ends.\<close>

definition strip :: "string \<Rightarrow> string" where
  "strip s = rev (dropWhile is_space (rev (dropWhile is_space s)))"


text \<open>\<open>re.sub(r"\s+", " ", s)\<close>: every maximal run of white space becomes one blank.\<close>

function collapse_ws :: "string \<Rightarrow> string" where
  "collapse_ws [] = []"
| "collapse_ws (c # cs) =
     (if is_space c then CHR '' '' # collapse_ws (dropWhile is_space cs) else c # collapse_ws cs)"
  by pat_completeness auto
termination
  by (relation "measure length") (auto simp: length_dropWhile_le less_Suc_eq_le)

section \<open>Attribute equality (match/predictors.py)\<close>

definition attr_equal :: "element \<Rightarrow> element \<Rightarrow> string \<Rightarrow> string option \<Rightarrow> bool" where
  "attr_equal a b name1 name2 =
     (let attr_a = lower (strip (get_d a name1 []));
          attr_b = (case name2 of
                      None \<Rightarrow> lower (strip (get_d b name1 []))
                    | Some n2 \<Rightarrow> lower (strip (get_d b n2 [])))
      in if attr_a = [] \<or> attr_b = [] then False
         else strip (collapse_ws attr_a) = strip (collapse_ws attr_b))"

section \<open>Criterion (common/criterion.py)\<close>

datatype criterion = ID | DESC | CLASS | TEXT

text \<open>The member names, as \<open>Criterion[k]\<close> and \<open>k.name\<close> use them.\<close>

fun criterion_name :: "criterion \<Rightarrow> string" where
  "criterion_name ID = ''ID''"
| "criterion_name DESC = ''DESC''"
| "criterion_name CLASS = ''CLASS''"
| "criterion_name TEXT = ''TEXT''"

text \<open>\<open>Criterion[k]\<close>: \<open>None\<close> stands for the \<open>KeyError\<close> of an unknown name.\<close>

definition criterion_of_name :: "string \<Rightarrow> criterion option" where
  "criterion_of_name k =
     (if k = ''ID'' then Some ID
      else if k = ''DESC'' then Some DESC
      else if k = ''CLASS'' then Some CLASS
      else if k = ''TEXT'' then Some TEXT
      else None)"

text \<open>\<open>Criterion.__call__(node, identifier)\<close>.\<close>

fun criterion_call :: "criterion \<Rightarrow> element \<Rightarrow> string \<Rightarrow> bool" where
  "criterion_call ID node identifier = (get node ''resource-id'' = Some identifier)"
| "criterion_call DESC node identifier = (get node ''content-desc'' = Some identifier)"
| "criterion_call CLASS node identifier = (get node ''class'' = Some identifier)"
| "criterion_call TEXT node identifier = (get node ''text'' = Some identifier)"

text \<open>The XML attribute each criterion is bound to.\<close>

fun criterion_attr :: "criterion \<Rightarrow> string" where
  "criterion_attr ID = ''resource-id''"
| "criterion_attr DESC = ''content-desc''"
| "criterion_attr CLASS = ''class''"
| "criterion_attr TEXT = ''text''"

section \<open>Python values and errors\<close>

datatype py_error =
  KeyError | IndexError | AssertionError | ValueError | FileNotFoundError | ParseError

text \<open>
  The values of a deserialised JSON object that the source looks at.  A mapping carries
  string values, as the annotation \<open>Mapping[Criterion, str]\<close> of \<open>Locator.criteria\<close>
  declares for the only mapping that is read.
\<close>

datatype pyobj = PNone | PBool bool | PInt int | PStr string | PMap "(string \<times> string) list"

text \<open>Python truthiness, as \<open>if x:\<close> evaluates it.\<close>

fun truthy :: "pyobj \<Rightarrow> bool" where
  "truthy PNone = False"
| "truthy (PBool b) = b"
| "truthy (PInt i) = (i \<noteq> 0)"
| "truthy (PStr s) = (s \<noteq> [])"
| "truthy (PMap m) = (m \<noteq> [])"

text \<open>\<open>xs[i]\<close>: a negative index counts from the end; out of range raises.\<close>

definition py_index :: "'a list \<Rightarrow> int \<Rightarrow> py_error + 'a" where
  "py_index xs i =
     (if 0 \<le> i \<and> i < int (length xs) then Inr (xs ! nat i)
      else if i < 0 \<and> - i \<le> int (length xs) then Inr (xs ! nat (int (length xs) + i))
      else Inl IndexError)"

text \<open>
  \<open>int(s)\<close> on a string: the characters 9 to 13 and 32 around it are dropped (on an
  ASCII string \<open>int\<close> skips these only, not the characters 28 to 31 that \<open>strip()\<close>
  removes), one sign is allowed, and single underscores may separate digits; anything
  else raises \<open>ValueError\<close>.
\<close>

definition is_int_space :: "char \<Rightarrow> bool" where
  "is_int_space c = (let k = (of_char c :: nat) in (9 \<le> k \<and> k \<le> 13) \<or> k = 32)"

definition int_strip :: "string \<Rightarrow> string" where
  "int_strip s = rev (dropWhile is_int_space (rev (dropWhile is_int_space s)))"

fun single_underscores :: "string \<Rightarrow> bool" where
  "single_underscores (a # b # r) =
     (\<not> (a = CHR ''_'' \<and> b = CHR ''_'') \<and> single_underscores (b # r))"
| "single_underscores r = True"

definition py_digits :: "string \<Rightarrow> int option" where
  "py_digits s =
     (if s \<noteq> [] \<and> is_digit (hd s) \<and> is_digit (last s)
         \<and> (\<forall>c \<in> set s. is_digit c \<or> c = CHR ''_'')
         \<and> single_underscores s
      then Some (int_of_digits (filter is_digit s)) else None)"

definition py_int :: "string \<Rightarrow> py_error + int" where
  "py_int s =
     (case int_strip s of
        [] \<Rightarrow> Inl ValueError
      | c # r \<Rightarrow>
          (case (if c = CHR ''-'' then map_option uminus (py_digits r)
                 else if c = CHR ''+'' then py_digits r
                 else py_digits (c # r)) of
             None \<Rightarrow> Inl ValueError
           | Some i \<Rightarrow> Inr i))"

section \<open>Iteration over a tree\<close>

text \<open>\<open>Element.iter()\<close>: the element and its descendants in document order.\<close>

fun iter_all :: "element \<Rightarrow> element list" where
  "iter_all (Element t a cs) = Element t a cs # concat (map iter_all cs)"

text \<open>\<open>Element.iter(tag)\<close>: those of them that carry the tag.\<close>

definition iter :: "string \<Rightarrow> element \<Rightarrow> element list" where
  "iter tg node = filter (\<lambda>e. tag e = tg) (iter_all node)"

section \<open>Locator (common/locator.py)\<close>

text \<open>
  The criteria dictionary is kept in insertion order; its keys are distinct, as the
  keys of a dictionary are.
\<close>

record locator =
  criteria :: "(criterion \<times> string) list"
  index :: int

text \<open>The nodes that satisfy every criterion, in document order.\<close>

definition satisfying :: "locator \<Rightarrow> element \<Rightarrow> element list" where
  "satisfying l node =
     filter (\<lambda>n. \<forall>(k, v) \<in> set (criteria l). criterion_call k n v) (iter ''node'' node)"

definition find_in_layout :: "locator \<Rightarrow> element \<Rightarrow> py_error + element option" where
  "find_in_layout l node =
     (let matched = satisfying l node
      in if length matched = 0 \<or> index l \<ge> int (length matched) then Inr None
         else (case py_index matched (index l) of
                 Inl e \<Rightarrow> Inl e
               | Inr n \<Rightarrow> Inr (Some n)))"

definition to_dict :: "locator \<Rightarrow> (string \<times> pyobj) list" where
  "to_dict l =
     (''criteria'', PMap (map (\<lambda>(k, v). (criterion_name k, v)) (criteria l)))
     # (if index l \<noteq> 0 then [(''index'', PInt (index l))] else [])"

text \<open>The loop of \<open>from_dict\<close>: an unknown name is skipped, a known one is stored.\<close>

fun from_dict_items :: "(string \<times> string) list \<Rightarrow> (criterion \<times> string) list
    \<Rightarrow> (criterion \<times> string) list" where
  "from_dict_items [] c = c"
| "from_dict_items ((k, v) # kvs) c =
     (case criterion_of_name k of
        None \<Rightarrow> from_dict_items kvs c
      | Some criterion \<Rightarrow> from_dict_items kvs (AList.update criterion v c))"

text \<open>
  \<open>Locator.from_dict\<close>.  \<open>d["criteria"]\<close> raises \<open>KeyError\<close> when the key is absent; the
  assertion wants an \<open>int\<close> (a \<open>bool\<close> is one in Python) and a mapping.
\<close>

definition from_dict :: "(string \<times> pyobj) list \<Rightarrow> py_error + locator" where
  "from_dict d =
     (case map_of d ''criteria'' of
        None \<Rightarrow> Inl KeyError
      | Some crit \<Rightarrow>
          (let idx = (case map_of d ''index'' of None \<Rightarrow> PInt 0 | Some i \<Rightarrow> i)
           in case (idx, crit) of
                (PInt i, PMap m) \<Rightarrow> Inr \<lparr>criteria = from_dict_items m [], index = i\<rparr>
              | (PBool b, PMap m) \<Rightarrow>
                  Inr \<lparr>criteria = from_dict_items m [], index = (if b then 1 else 0)\<rparr>
              | _ \<Rightarrow> Inl AssertionError))"

text \<open>
  \<open>Locator.from_node\<close>: the first non-empty of text, content-desc and resource-id, with
  the index read from the matching \<open>-index\<close> attribute; otherwise the class.
\<close>

definition from_node_attr :: "element \<Rightarrow> string \<Rightarrow> criterion \<Rightarrow> string \<Rightarrow> py_error + locator" where
  "from_node_attr node attr criterion identifier =
     (case py_int (get_d node (attr @ ''-index'') ''0'') of
        Inl e \<Rightarrow> Inl e
      | Inr i \<Rightarrow> Inr \<lparr>criteria = [(criterion, identifier)], index = i\<rparr>)"

definition from_node :: "element \<Rightarrow> py_error + locator" where
  "from_node node =
     (if get_d node ''text'' [] \<noteq> []
        then from_node_attr node ''text'' TEXT (get_d node ''text'' [])
      else if get_d node ''content-desc'' [] \<noteq> []
        then from_node_attr node ''content-desc'' DESC (get_d node ''content-desc'' [])
      else if get_d node ''resource-id'' [] \<noteq> []
        then from_node_attr node ''resource-id'' ID (get_d node ''resource-id'' [])
      else from_node_attr node ''class'' CLASS (get_d node ''class'' []))"

text \<open>The attribute that \<open>from_node\<close> settles on.\<close>

definition chosen_attr :: "element \<Rightarrow> string \<times> criterion" where
  "chosen_attr node =
     (if get_d node ''text'' [] \<noteq> [] then (''text'', TEXT)
      else if get_d node ''content-desc'' [] \<noteq> [] then (''content-desc'', DESC)
      else if get_d node ''resource-id'' [] \<noteq> [] then (''resource-id'', ID)
      else (''class'', CLASS))"

section \<open>Printing integers\<close>

text \<open>\<open>str(n)\<close> for an integer: decimal digits, a minus sign for a negative one.\<close>

definition digit_char :: "nat \<Rightarrow> char" where
  "digit_char d = ''0123456789'' ! d"

fun str_nat :: "nat \<Rightarrow> string" where
  "str_nat n = (if n < 10 then [digit_char n] else str_nat (n div 10) @ [digit_char (n mod 10)])"

definition str_int :: "int \<Rightarrow> string" where
  "str_int i = (if i < 0 then CHR ''-'' # str_nat (nat (- i)) else str_nat (nat i))"

section \<open>Preprocessing (match/preprocess.py)\<close>

text \<open>\<open>s.startswith(p)\<close>.\<close>

definition startswith :: "string \<Rightarrow> string \<Rightarrow> bool" where
  "startswith s p = (take (length p) s = p)"

text \<open>
  \<open>remove_node\<close>: below a \<open>hierarchy\<close> root, the direct children that satisfy the
  predicate are removed; any other root is left alone.
\<close>

definition remove_node :: "element \<Rightarrow> (element \<Rightarrow> bool) \<Rightarrow> element" where
  "remove_node node predictor =
     (if tag node \<noteq> ''hierarchy'' then node
      else Element (tag node) (attrib node) (filter (\<lambda>child. \<not> predictor child) (children node)))"

text \<open>
  The four counters of \<open>denote_index\<close>, one \<open>defaultdict(int)\<close> for each attribute name,
  in the order in which the dictionary lists them.
\<close>

type_synonym counters = "string \<Rightarrow> string \<Rightarrow> nat"

definition counter_keys :: "string list" where
  "counter_keys = [''class'', ''resource-id'', ''content-desc'', ''text'']"

text \<open>\<open>child.get(k, "")\<close> on the attribute dictionary.\<close>

definition attr_or_empty :: "(string \<times> string) list \<Rightarrow> string \<Rightarrow> string" where
  "attr_or_empty a k = (case map_of a k of Some v \<Rightarrow> v | None \<Rightarrow> [])"

text \<open>One round of the inner loop: attribute \<open>k\<close> of one node.\<close>

definition denote_key :: "string \<Rightarrow> (string \<times> string) list \<times> counters
    \<Rightarrow> (string \<times> string) list \<times> counters" where
  "denote_key k ac =
     (case ac of (a, c) \<Rightarrow>
        let v = attr_or_empty a k
        in if v \<noteq> []
           then (AList.update (k @ ''-index'') (str_nat (c k v)) a, c(k := (c k)(v := c k v + 1)))
           else (AList.update (k @ ''-index'') (str_int (- 1)) a, c))"

text \<open>The body of the outer loop: a node whose resource-id starts with \<open>com.google.android\<close> is skipped.\<close>

definition denote_node :: "(string \<times> string) list \<Rightarrow> counters
    \<Rightarrow> (string \<times> string) list \<times> counters" where
  "denote_node a c =
     (if startswith (attr_or_empty a ''resource-id'') ''com.google.android''
      then (a, c)
      else fold denote_key counter_keys (a, c))"

text \<open>
  The outer loop runs over \<open>node.iter("node")\<close>: document order, the counters carried
  along; an element with another tag is passed through and its children are visited.
\<close>

fun denote_index_from :: "element \<Rightarrow> counters \<Rightarrow> element \<times> counters"
  and denote_index_list :: "element list \<Rightarrow> counters \<Rightarrow> element list \<times> counters" where
  "denote_index_from (Element t a cs) c =
     (let (a', c1) = (if t = ''node'' then denote_node a c else (a, c));
          (cs', c2) = denote_index_list cs c1
      in (Element t a' cs', c2))"
| "denote_index_list [] c = ([], c)"
| "denote_index_list (e # es) c =
     (let (e', c1) = denote_index_from e c;
          (es', c2) = denote_index_list es c1
      in (e' # es', c2))"

definition denote_index :: "element \<Rightarrow> element" where
  "denote_index node = fst (denote_index_from node (\<lambda>k v. 0))"

text \<open>\<open>child.attrib.update({"x": ..., "y": ..., "w": ..., "h": ...})\<close>.\<close>

definition bounds_attrs :: "element \<Rightarrow> (string \<times> string) list" where
  "bounds_attrs child =
     (case coordinates child of (x0, y0, x1, y1) \<Rightarrow>
        AList.update ''h'' (str_int (y1 - y0))
          (AList.update ''w'' (str_int (x1 - x0))
            (AList.update ''y'' (str_int y0)
              (AList.update ''x'' (str_int x0) (attrib child)))))"

fun denote_bounds :: "element \<Rightarrow> element" where
  "denote_bounds (Element t a cs) =
     Element t (if t = ''node'' then bounds_attrs (Element t a cs) else a) (map denote_bounds cs)"

definition preprocess :: "element \<Rightarrow> element" where
  "preprocess node =
     denote_bounds (denote_index
       (remove_node node (\<lambda>n. get n ''package'' = Some ''com.android.systemui'')))"

text \<open>\<open>int(node.get(k, "0"))\<close>, the way the predicates read a derived field.\<close>

definition int_attr :: "element \<Rightarrow> string \<Rightarrow> py_error + int" where
  "int_attr node k = py_int (get_d node k ''0'')"

text \<open>
  The property that \<open>denote_index\<close> establishes for the attributes of a node it does
  not skip: each of the four attributes has its \<open>-index\<close> field, a decimal count
  when the value is non-empty and \<open>-1\<close> when it is empty.
\<close>

definition indexed :: "(string \<times> string) list \<Rightarrow> bool" where
  "indexed a =
     (\<forall>k \<in> set counter_keys. \<exists>s. map_of a (k @ ''-index'') = Some s
        \<and> (if attr_or_empty a k \<noteq> [] then \<exists>i. s = str_nat i else s = str_int (- 1)))"

definition skipped :: "(string \<times> string) list \<Rightarrow> bool" where
  "skipped a = startswith (attr_or_empty a ''resource-id'') ''com.google.android''"

section \<open>Attribute similarity (match/predictors.py)\<close>

text \<open>
  \<open>id_pattern\<close> is
  \<^verbatim>\<open>^(?:[A-Za-z][A-Za-z\d_]*)(?:\.[A-Za-z][A-Za-z\d_]*)*:id/(?P<content>.*)$\<close>:
  a dotted package name, the literal \<open>:id/\<close>, and the content.  Neither a dot nor a
  colon can occur inside a name, so the names are read greedily.  \<open>.*\<close> stops at a line
  feed, and \<open>$\<close> accepts the end of the string or one last line feed.
\<close>

definition is_alpha :: "char \<Rightarrow> bool" where
  "is_alpha c = (let k = (of_char c :: nat) in (65 \<le> k \<and> k \<le> 90) \<or> (97 \<le> k \<and> k \<le> 122))"

definition is_word :: "char \<Rightarrow> bool" where
  "is_word c = (is_alpha c \<or> is_digit c \<or> c = CHR ''_'')"

text \<open>One name \<open>[A-Za-z][A-Za-z\d_]*\<close>; the result is what follows it.\<close>

definition name_part :: "string \<Rightarrow> string option" where
  "name_part s =
     (case s of [] \<Rightarrow> None | c # r \<Rightarrow> if is_alpha c then Some (dropWhile is_word r) else None)"

text \<open>The repetition \<open>(?:\.[A-Za-z][A-Za-z\d_]*)*\<close>; the result is what follows it.\<close>

function dotted_parts :: "string \<Rightarrow> string" where
  "dotted_parts s =
     (case s of
        [] \<Rightarrow> s
      | c # r \<Rightarrow>
          if c = CHR ''.'' then (case name_part r of None \<Rightarrow> s | Some r' \<Rightarrow> dotted_parts r')
          else s)"
  by pat_completeness auto
termination
proof (relation "measure length")
  show "wf (measure length)" by simp
next
  fix s :: string and c r r'
  assume "s = c # r" "c = CHR ''.''" "name_part r = Some r'"
  then have "length r' \<le> length r"
    by (auto simp: name_part_def split: list.splits if_splits
        intro: le_trans [OF length_dropWhile_le])
  with \<open>s = c # r\<close> show "(r', s) \<in> measure length" by simp
qed

definition match_id :: "string \<Rightarrow> string option" where
  "match_id s =
     (case name_part s of
        None \<Rightarrow> None
      | Some r \<Rightarrow>
          (let r' = dotted_parts r
           in if take 4 r' = '':id/''
              then (let rest = drop 4 r';
                        content = takeWhile (\<lambda>c. c \<noteq> CHR 0x0A) rest;
                        tail = dropWhile (\<lambda>c. c \<noteq> CHR 0x0A) rest
                    in if tail = [] \<or> tail = [CHR 0x0A] then Some content else None)
              else None))"

definition process_id :: "string \<Rightarrow> string" where
  "process_id s =
     (if length s = 0 then s
      else (case match_id s of Some content \<Rightarrow> content | None \<Rightarrow> s))"

definition threshold :: real where
  "threshold = 0.70"

text \<open>
  \<open>attr_like\<close>.  \<open>ratio\<close> is the function of that name of the Levenshtein package, which
  the repository imports; it is a parameter here.
\<close>

definition attr_like :: "(string \<Rightarrow> string \<Rightarrow> real) \<Rightarrow> element \<Rightarrow> element \<Rightarrow> string
    \<Rightarrow> string option \<Rightarrow> bool" where
  "attr_like ratio a b name1 name2 =
     (let attr_a = lower (strip (get_d a name1 []));
          attr_a = (if name1 = ''resource-id'' then process_id attr_a else attr_a);
          attr_b = (case name2 of
                      None \<Rightarrow> lower (strip (get_d b name1 []))
                    | Some n2 \<Rightarrow> lower (strip (get_d b n2 [])));
          attr_b = (if (name2 = None \<and> name1 = ''resource-id'') \<or> name2 = Some ''resource-id''
                    then process_id attr_b else attr_b)
      in if attr_a = [] \<or> attr_b = [] then False
         else (let attr_a = lower (strip (collapse_ws attr_a));
                   attr_b = lower (strip (collapse_ws attr_b));
                   similarity = ratio attr_a attr_b
               in similarity \<ge> threshold))"

text \<open>
  The formula that the Levenshtein package documents for \<open>ratio\<close>: twice the length of a
  longest common subsequence over the sum of the lengths, and 1 for two empty strings.
  It serves to run \<open>attr_like\<close> on examples.
\<close>

fun lcs_len :: "string \<Rightarrow> string \<Rightarrow> nat" where
  "lcs_len [] t = 0"
| "lcs_len (x # xs) [] = 0"
| "lcs_len (x # xs) (y # ys) =
     (if x = y then Suc (lcs_len xs ys) else max (lcs_len xs (y # ys)) (lcs_len (x # xs) ys))"

definition indel_ratio :: "string \<Rightarrow> string \<Rightarrow> real" where
  "indel_ratio s t =
     (if s = [] \<and> t = [] then 1 else 2 * real (lcs_len s t) / real (length s + length t))"

section \<open>Matching two nodes (match/predictors.py)\<close>

definition is_match :: "element \<Rightarrow> element \<Rightarrow> bool \<Rightarrow> bool" where
  "is_match a b strict =
     (let results = [attr_equal a b ''resource-id'' None,
                     attr_equal a b ''content-desc'' None,
                     attr_equal a b ''text'' None];
          equal_num = sum_list (map (\<lambda>x. if x then 1 else 0) results) :: nat
      in if strict then equal_num \<ge> 2 else equal_num \<ge> 1)"

section \<open>Actions, events and steps (common/action.py, event.py, step.py)\<close>

datatype action =
  CLICK | LONG_CLICK | SET_TEXT | EXIST | NOT_EXIST | EQUAL | NOT_EQUAL | BACK | SWIPE

fun action_is_assertion :: "action \<Rightarrow> bool" where
  "action_is_assertion EXIST = True"
| "action_is_assertion NOT_EXIST = True"
| "action_is_assertion EQUAL = True"
| "action_is_assertion NOT_EQUAL = True"
| "action_is_assertion a = False"

record event =
  action :: action
  locator :: "locator option"
  parameter :: "(string \<times> pyobj) list"

definition is_assertion :: "event \<Rightarrow> bool" where
  "is_assertion e = action_is_assertion (action e)"

text \<open>A user interface snapshot: the layout text \<open>x\<close> and the screenshot bytes \<open>p\<close>.\<close>

record ui =
  ui_x :: string
  ui_p :: string

definition empty_ui :: ui where
  "empty_ui = \<lparr>ui_x = [], ui_p = []\<rparr>"

record step =
  event :: event
  ui_before :: ui
  ui_after :: ui

section \<open>Loading a record (common/step.py)\<close>

text \<open>
  The directory or archive is a partial map from relative paths to file contents;
  reading a path that is not there raises.
\<close>

type_synonym files = "string \<Rightarrow> string option"

definition read_file :: "files \<Rightarrow> string \<Rightarrow> py_error + string" where
  "read_file fs path = (case fs path of None \<Rightarrow> Inl FileNotFoundError | Some c \<Rightarrow> Inr c)"

definition ui_path :: "nat \<Rightarrow> string \<Rightarrow> string" where
  "ui_path i ext = ''ui/'' @ str_nat i @ ext"

text \<open>\<open>load_ui(i)\<close>: four reads, in the order of the source.\<close>

definition load_ui :: "files \<Rightarrow> nat \<Rightarrow> py_error + (ui \<times> ui)" where
  "load_ui fs i =
     (case read_file fs (ui_path (i * 2) ''.xml'') of Inl e \<Rightarrow> Inl e | Inr lb \<Rightarrow>
      case read_file fs (ui_path (i * 2) ''.png'') of Inl e \<Rightarrow> Inl e | Inr sb \<Rightarrow>
      case read_file fs (ui_path (i * 2 + 1) ''.xml'') of Inl e \<Rightarrow> Inl e | Inr la \<Rightarrow>
      case read_file fs (ui_path (i * 2 + 1) ''.png'') of Inl e \<Rightarrow> Inl e | Inr sa \<Rightarrow>
        Inr (\<lparr>ui_x = lb, ui_p = sb\<rparr>, \<lparr>ui_x = la, ui_p = sa\<rparr>))"

text \<open>\<open>event.parameter.get("generated", False)\<close>, taken as a condition.\<close>

definition generated :: "event \<Rightarrow> bool" where
  "generated e =
     truthy (case map_of (parameter e) ''generated'' of None \<Rightarrow> PBool False | Some v \<Rightarrow> v)"

text \<open>The loop over the events, with the counter \<open>i\<close> of the snapshots used so far.\<close>

fun load_steps :: "files \<Rightarrow> nat \<Rightarrow> event list \<Rightarrow> py_error + step list" where
  "load_steps fs i [] = Inr []"
| "load_steps fs i (e # es) =
     (if generated e
      then (case load_steps fs i es of
              Inl err \<Rightarrow> Inl err
            | Inr r \<Rightarrow> Inr (\<lparr>event = e, ui_before = empty_ui, ui_after = empty_ui\<rparr> # r))
      else (case load_ui fs i of
              Inl err \<Rightarrow> Inl err
            | Inr (b, a) \<Rightarrow>
                (case load_steps fs (i + 1) es of
                   Inl err \<Rightarrow> Inl err
                 | Inr r \<Rightarrow> Inr (\<lparr>event = e, ui_before = b, ui_after = a\<rparr> # r))))"

text \<open>\<open>s.split("\n")\<close>.\<close>

fun split_lines :: "string \<Rightarrow> string list" where
  "split_lines [] = [[]]"
| "split_lines (c # cs) =
     (if c = CHR 0x0A then [] # split_lines cs
      else (case split_lines cs of l # ls \<Rightarrow> (c # l) # ls | [] \<Rightarrow> [[c]]))"

text \<open>A list comprehension whose function may raise: the first error ends it.\<close>

fun map_result :: "('a \<Rightarrow> py_error + 'b) \<Rightarrow> 'a list \<Rightarrow> py_error + 'b list" where
  "map_result f [] = Inr []"
| "map_result f (x # xs) =
     (case f x of
        Inl e \<Rightarrow> Inl e
      | Inr y \<Rightarrow> (case map_result f xs of Inl e \<Rightarrow> Inl e | Inr ys \<Rightarrow> Inr (y # ys)))"

text \<open>
  \<open>load_testcase\<close>.  \<open>from_json\<close> stands for \<open>Event.from_json\<close>, which rests on the JSON
  parser of the standard library.  The pretest script is optional: a failed read is
  swallowed.
\<close>

definition load_testcase :: "files \<Rightarrow> (string \<Rightarrow> py_error + event) \<Rightarrow> bool
    \<Rightarrow> py_error + (step list \<times> string option)" where
  "load_testcase fs from_json generate =
     (let pretest = fs ''pretest.py''
      in case read_file fs (if generate then ''record_with_assertion.txt'' else ''record.txt'') of
           Inl e \<Rightarrow> Inl e
         | Inr events_str \<Rightarrow>
             (case map_result from_json
                     (filter (\<lambda>x. length (strip x) \<noteq> 0) (split_lines events_str)) of
                Inl e \<Rightarrow> Inl e
              | Inr events \<Rightarrow>
                  (case load_steps fs 0 events of
                     Inl e \<Rightarrow> Inl e
                   | Inr result \<Rightarrow> Inr (result, pretest))))"

text \<open>
  The position of event \<open>k\<close> among the events that are not generated: the number of
  such events before it.
\<close>

definition ui_position :: "event list \<Rightarrow> nat \<Rightarrow> nat" where
  "ui_position events k = length (filter (\<lambda>e. \<not> generated e) (take k events))"

section \<open>Loops and comprehensions that may raise\<close>

text \<open>A list comprehension whose condition may raise.\<close>

fun filter_result :: "('a \<Rightarrow> py_error + bool) \<Rightarrow> 'a list \<Rightarrow> py_error + 'a list" where
  "filter_result f [] = Inr []"
| "filter_result f (x # xs) =
     (case f x of
        Inl e \<Rightarrow> Inl e
      | Inr b \<Rightarrow> (case filter_result f xs of
                    Inl e \<Rightarrow> Inl e
                  | Inr ys \<Rightarrow> Inr (if b then x # ys else ys)))"

text \<open>A \<open>for\<close> loop whose body may raise.\<close>

fun fold_result :: "('a \<Rightarrow> 's \<Rightarrow> py_error + 's) \<Rightarrow> 'a list \<Rightarrow> 's \<Rightarrow> py_error + 's" where
  "fold_result f [] s = Inr s"
| "fold_result f (x # xs) s = (case f x s of Inl e \<Rightarrow> Inl e | Inr s' \<Rightarrow> fold_result f xs s')"


section \<open>Node classification (match/predictors.py)\<close>

definition list_classes :: "string set" where
  "list_classes =
     {''android.view.ViewGroup'', ''android.widget.GridView'', ''android.widget.ListView'',
      ''android.widget.FrameLayout'', ''android.widget.GridLayout'',
      ''android.widget.LinearLayout'', ''android.widget.RelativeLayout'',
      ''androidx.recyclerview.widget.RecyclerView''}"

definition is_list :: "element \<Rightarrow> bool" where
  "is_list n = (case get n ''class'' of None \<Rightarrow> False | Some c \<Rightarrow> c \<in> list_classes)"

text \<open>
  \<open>is_child\<close>.  \<open>node.get("text") != ""\<close> holds for a node without the attribute too.
  The bound \<open>1080 * 1920 * 0.6\<close> is the number 1244160.
\<close>

definition is_child :: "element \<Rightarrow> py_error + bool" where
  "is_child n =
     (if length (children n) \<noteq> 0 then Inr False
      else if startswith (get_d n ''resource-id'' []) ''com.google.android.inputmethod''
        then Inr False
      else if get n ''w'' = Some ''0'' \<or> get n ''h'' = Some ''0'' then Inr False
      else (case int_attr n ''w'' of Inl e \<Rightarrow> Inl e | Inr w \<Rightarrow>
            case int_attr n ''h'' of Inl e \<Rightarrow> Inl e | Inr h \<Rightarrow>
              if real_of_int (w * h) \<ge> 1080 * 1920 * 0.6 then Inr False
              else (let not_list = \<not> is_list n;
                        has_text = (get n ''text'' \<noteq> Some []);
                        not_empty = (has_text \<or> get n ''content-desc'' \<noteq> Some []
                                       \<or> get n ''resource-id'' \<noteq> Some []);
                        big_enough = (w \<ge> 15 \<and> h \<ge> 15)
                    in Inr (not_list \<and> (not_empty \<or> big_enough)))))"

definition is_parent :: "element \<Rightarrow> bool" where
  "is_parent n =
     (if get n ''w'' = Some ''0'' \<or> get n ''h'' = Some ''0'' then False
      else (let not_empty = (get_d n ''resource-id'' [] \<noteq> [] \<or> get_d n ''content-desc'' [] \<noteq> [])
            in not_empty \<and> (length (children n) > 0 \<or> is_list n)))"

definition is_cover :: "element \<Rightarrow> element \<Rightarrow> bool" where
  "is_cover a b =
     (case coordinates a of (ax0, ay0, ax1, ay1) \<Rightarrow>
      case coordinates b of (bx0, by0, bx1, by1) \<Rightarrow>
        let center_x = real_of_int (bx0 + bx1) / 2;
            center_y = real_of_int (by0 + by1) / 2;
            h_cover = (real_of_int ax0 \<le> center_x \<and> center_x \<le> real_of_int ax1);
            v_cover = (real_of_int ay0 \<le> center_y \<and> center_y \<le> real_of_int ay1)
        in h_cover \<and> v_cover)"

section \<open>Layouts (match/layout.py)\<close>

text \<open>
  A node of a layout is referred to by its position in the document order of the tree
  of that layout; two nodes are the same object exactly when they have the same
  position.  A set of nodes is kept as the list of its members in the order in which
  the program iterates over it, a dictionary as the list of its items in insertion
  order.
\<close>

type_synonym ref = nat

record layout =
  xml :: string
  png :: string
  root_l :: element
  children_l :: "ref list"
  parents :: "ref list"
  cp :: "(ref \<times> ref) list"
  non_overlap :: "(ref \<times> ref) list"
  non_unique :: "ref list"
  unique_children :: "ref list"

definition node :: "layout \<Rightarrow> ref \<Rightarrow> element" where
  "node l r = iter_all (root_l l) ! r"

text \<open>\<open>n.iter("node")\<close> for the node at \<open>r\<close>, as references: its subtree in document order.\<close>

definition iter_refs :: "layout \<Rightarrow> ref \<Rightarrow> ref list" where
  "iter_refs l r =
     filter (\<lambda>j. tag (node l j) = ''node'') [r ..< r + length (iter_all (node l r))]"


section \<open>Building a layout (match/layout.py)\<close>

text \<open>The node of a tree at a position, and the positions of the \<open>node\<close> elements.\<close>

definition node_at :: "element \<Rightarrow> ref \<Rightarrow> element" where
  "node_at t r = iter_all t ! r"

definition node_refs :: "element \<Rightarrow> ref list" where
  "node_refs t = filter (\<lambda>j. tag (node_at t j) = ''node'') [0 ..< length (iter_all t)]"

text \<open>The positions of the direct children of the node at \<open>p\<close>.\<close>

fun child_offsets :: "element list \<Rightarrow> nat \<Rightarrow> ref list" where
  "child_offsets [] k = []"
| "child_offsets (c # cs) k = k # child_offsets cs (k + length (iter_all c))"

definition child_refs :: "element \<Rightarrow> ref \<Rightarrow> ref list" where
  "child_refs t p = child_offsets (children (node_at t p)) (p + 1)"

text \<open>\<open>get_valid_node\<close>: the loop body, then the loop over \<open>node.iter("node")\<close>.\<close>

definition covered_child :: "element \<Rightarrow> element \<Rightarrow> ref \<Rightarrow> py_error + bool" where
  "covered_child t n r =
     (case is_child (node_at t r) of Inl e \<Rightarrow> Inl e | Inr c \<Rightarrow> Inr (c \<and> is_cover n (node_at t r)))"

definition covering_child :: "element \<Rightarrow> element \<Rightarrow> ref \<Rightarrow> py_error + bool" where
  "covering_child t n r =
     (case is_child (node_at t r) of
        Inl e \<Rightarrow> Inl e
      | Inr c \<Rightarrow> Inr (c \<and> get (node_at t r) ''clickable'' = Some ''true''
                      \<and> is_cover (node_at t r) n))"

definition valid_step :: "element \<Rightarrow> ref \<Rightarrow> ref list \<Rightarrow> py_error + ref list" where
  "valid_step t r res =
     (let n = node_at t r
      in case is_child n of
           Inl e \<Rightarrow> Inl e
         | Inr c \<Rightarrow>
             (case (if c \<and> get n ''clickable'' = Some ''true''
                    then (case filter_result (covered_child t n) res of
                            Inl e \<Rightarrow> Inl e
                          | Inr covered \<Rightarrow> Inr (filter (\<lambda>x. x \<notin> set covered) res))
                    else Inr res) of
                Inl e \<Rightarrow> Inl e
              | Inr res1 \<Rightarrow>
                  if c \<and> get n ''clickable'' = Some ''false''
                  then (case filter_result (covering_child t n) res1 of
                          Inl e \<Rightarrow> Inl e
                        | Inr covering \<Rightarrow>
                            if length covering > 0 then Inr res1 else Inr (res1 @ [r]))
                  else Inr (res1 @ [r])))"

definition get_valid_node :: "element \<Rightarrow> py_error + ref list" where
  "get_valid_node t = fold_result (valid_step t) (node_refs t) []"

definition get_children :: "element \<Rightarrow> py_error + ref list" where
  "get_children t =
     (case get_valid_node t of
        Inl e \<Rightarrow> Inl e
      | Inr valid \<Rightarrow> filter_result (\<lambda>x. is_child (node_at t x)) valid)"

definition get_parents :: "element \<Rightarrow> ref list" where
  "get_parents t = filter (\<lambda>x. is_parent (node_at t x)) (node_refs t)"

text \<open>
  \<open>compress_parents\<close>: \<open>b\<close> goes when it has one child and that child is another parent;
  the only child of the node at \<open>b\<close> is the node at \<open>b + 1\<close>.
\<close>

definition compress_parents :: "element \<Rightarrow> ref list \<Rightarrow> ref list" where
  "compress_parents t ps =
     (let need_remove =
            filter (\<lambda>b. \<exists>a \<in> set ps. a \<noteq> b \<and> length (children (node_at t b)) = 1 \<and> b + 1 = a) ps
      in filter (\<lambda>p. p \<notin> set need_remove) ps)"

text \<open>\<open>{c: p for p in self.root.iter("node") for c in p}\<close>.\<close>

definition child_parent :: "element \<Rightarrow> (ref \<times> ref) list" where
  "child_parent t = concat (map (\<lambda>p. map (\<lambda>c. (c, p)) (child_refs t p)) (node_refs t))"

definition unique_step_class :: "element \<Rightarrow> ref \<Rightarrow> string list \<times> ref list \<Rightarrow> string list \<times> ref list" where
  "unique_step_class t child sr =
     (case sr of (s, res) \<Rightarrow>
        let class_name = get_d (node_at t child) ''class'' []
        in if class_name \<notin> set s then (s @ [class_name], res @ [child])
           else (s, filter (\<lambda>x. get_d (node_at t x) ''class'' [] \<noteq> class_name) res))"

definition get_unique_children :: "element \<Rightarrow> ref list \<Rightarrow> ref list" where
  "get_unique_children t cs = snd (fold (unique_step_class t) cs ([], []))"

text \<open>\<open>get_list_items\<close>: the children grouped by resource-id, in order of first occurrence.\<close>

definition group_step :: "element \<Rightarrow> ref \<Rightarrow> (string \<times> ref list) list \<Rightarrow> (string \<times> ref list) list" where
  "group_step t child counter =
     (let k = get_d (node_at t child) ''resource-id'' []
      in case map_of counter k of
           None \<Rightarrow> counter @ [(k, [child])]
         | Some v \<Rightarrow> AList.update k (v @ [child]) counter)"

definition get_list_items :: "element \<Rightarrow> ref list \<Rightarrow> ref list list" where
  "get_list_items t cs =
     map snd (filter (\<lambda>(k, v). k \<noteq> [] \<and> length v > 1) (fold (group_step t) cs []))"

text \<open>
  \<open>get_non_overlap\<close>.  An element counts as true in a condition when it has children.
  Nothing in the function bounds the \<open>while\<close> loop: on a dictionary \<open>cp\<close> with a cycle it
  does not return, which is the value \<open>None\<close>.
\<close>

definition overlap_step :: "element \<Rightarrow> (ref \<times> ref) list \<Rightarrow> ref \<Rightarrow> bool \<times> (ref \<times> ref) list
    \<Rightarrow> bool \<times> (ref \<times> ref) list" where
  "overlap_step t cp_map child ur =
     (case ur of (update, res) \<Rightarrow>
        (case map_of res child of
           None \<Rightarrow> ur
         | Some current_parent \<Rightarrow>
             (case map_of cp_map current_parent of
                None \<Rightarrow> ur
              | Some next_parent \<Rightarrow>
                  if length (children (node_at t next_parent)) \<noteq> 0
                     \<and> tag (node_at t next_parent) \<noteq> ''hierarchy''
                  then (let other_parents = map snd (filter (\<lambda>(k, v). k \<noteq> child) res)
                        in if \<forall>parent \<in> set other_parents.
                                \<not> is_overlap (node_at t next_parent) (node_at t parent)
                           then (True, AList.update child next_parent res)
                           else ur)
                  else ur)))"

partial_function (option) non_overlap_loop :: "element \<Rightarrow> (ref \<times> ref) list \<Rightarrow> (ref \<times> ref) list
    \<Rightarrow> (ref \<times> ref) list option" where
  "non_overlap_loop t cp_map res =
     (case fold (overlap_step t cp_map) (map fst res) (False, res) of
        (update, res') \<Rightarrow> if update then non_overlap_loop t cp_map res' else Some res')"

declare non_overlap_loop.simps [code]

definition get_non_overlap :: "element \<Rightarrow> ref list \<Rightarrow> (ref \<times> ref) list \<Rightarrow> (ref \<times> ref) list option" where
  "get_non_overlap t cs cp_map = non_overlap_loop t cp_map (map (\<lambda>child. (child, child)) cs)"

definition node_hash :: "element \<Rightarrow> string \<times> string \<times> string" where
  "node_hash n = (get_d n ''resource-id'' [], get_d n ''content-desc'' [], get_d n ''text'' [])"

definition get_non_unique :: "element \<Rightarrow> ref list \<Rightarrow> ref list" where
  "get_non_unique t cs =
     filter (\<lambda>child. length (filter (\<lambda>c. node_hash (node_at t c) = node_hash (node_at t child)) cs) > 1)
       cs"

text \<open>The loop at the end of \<open>__post_init__\<close>, over the groups of list items.\<close>

fun list_item_loop :: "element \<Rightarrow> (ref \<times> ref) list \<Rightarrow> ref list list
    \<Rightarrow> (ref \<times> ref) list \<times> ref list \<Rightarrow> ((ref \<times> ref) list \<times> ref list) option" where
  "list_item_loop t cp_map [] acc = Some acc"
| "list_item_loop t cp_map (g # gs) acc =
     (case get_non_overlap t g cp_map of
        None \<Rightarrow> None
      | Some items \<Rightarrow>
          list_item_loop t cp_map gs
            (fold (\<lambda>(k, v). AList.update k v) items (fst acc),
             List.union (snd acc) (get_non_unique t g)))"

text \<open>
  \<open>Layout(xml, png)\<close>, that is \<open>__post_init__\<close>.  \<open>fromstring\<close> is the XML parser of the
  standard library.  The sets are built in document order.  The result is \<open>None\<close>
  when the construction does not return, an error when it raises.
\<close>

definition Layout :: "(string \<Rightarrow> py_error + element) \<Rightarrow> string \<Rightarrow> string
    \<Rightarrow> (py_error + layout) option" where
  "Layout fromstring x p =
     (case fromstring x of
        Inl e \<Rightarrow> Some (Inl e)
      | Inr parsed \<Rightarrow>
          (let t = preprocess parsed
           in case get_children t of
                Inl e \<Rightarrow> Some (Inl e)
              | Inr cs \<Rightarrow>
                  (let ps = compress_parents t (get_parents t);
                       cp_map = child_parent t;
                       uc = get_unique_children t cs
                   in case list_item_loop t cp_map (get_list_items t cs) ([], []) of
                        None \<Rightarrow> None
                      | Some (no, nu) \<Rightarrow>
                          Some (Inr \<lparr>xml = x, png = p, root_l = t, children_l = cs,
                                     parents = ps, cp = cp_map, non_overlap = no,
                                     non_unique = nu, unique_children = uc\<rparr>))))"

section \<open>Similarity of two nodes (match/predictors.py)\<close>

definition is_like :: "(string \<Rightarrow> string \<Rightarrow> real) \<Rightarrow> element \<Rightarrow> element \<Rightarrow> bool \<Rightarrow> bool" where
  "is_like ratio a b strict =
     (if get_d a ''text'' [] = [] \<and> get_d b ''text'' [] = []
         \<and> get_d a ''content-desc'' [] = [] \<and> get_d b ''content-desc'' [] = []
         \<and> attr_like ratio a b ''resource-id'' None
         \<and> get_d a ''class'' [] = get_d b ''class'' []
         \<and> get a ''class'' = Some ''android.widget.EditText''
      then True
      else if (attr_like ratio a b ''resource-id'' None \<or> \<not> strict)
         \<and> (attr_like ratio a b ''text'' None
            \<or> attr_like ratio a b ''content-desc'' None
            \<or> attr_like ratio a b ''text'' (Some ''content-desc'')
            \<or> attr_like ratio a b ''content-desc'' (Some ''text''))
      then True
      else if (attr_equal a b ''text'' (Some ''content-desc'')
            \<or> attr_equal a b ''content-desc'' (Some ''text''))
         \<and> get a ''class'' \<noteq> Some ''android.widget.RadioButton''
         \<and> get b ''class'' \<noteq> Some ''android.widget.RadioButton''
      then True
      else False)"

text \<open>
  \<open>is_in_bound(point, node)\<close>: the four fields are read with \<open>int\<close>, which raises on a
  malformed one, before the strict comparison with the coordinates of the key point.
\<close>

definition is_in_bound :: "real \<times> real \<Rightarrow> element \<Rightarrow> py_error + bool" where
  "is_in_bound point n =
     (case int_attr n ''x'' of Inl e \<Rightarrow> Inl e | Inr x \<Rightarrow>
      case int_attr n ''y'' of Inl e \<Rightarrow> Inl e | Inr y \<Rightarrow>
      case int_attr n ''w'' of Inl e \<Rightarrow> Inl e | Inr w \<Rightarrow>
      case int_attr n ''h'' of Inl e \<Rightarrow> Inl e | Inr h \<Rightarrow>
        (case point of (px, py) \<Rightarrow>
           Inr (real_of_int x < px \<and> px < real_of_int (x + w)
                \<and> real_of_int y < py \<and> py < real_of_int (y + h))))"

section \<open>Matching two layouts (match/match.py)\<close>

text \<open>
  Each layout parses its own tree, so a node of the old layout and a node of the new
  one are different objects: the set \<open>info.matched\<close>, which holds nodes of both, holds
  tagged references.
\<close>

datatype node_ref = Old ref | New ref

type_synonym keypoint = "real \<times> real"

record match_info =
  old :: layout
  new :: layout
  info_matched :: "node_ref set"
  matched_parents :: "(ref \<times> ref) list"
  matched_points :: "(keypoint \<times> keypoint) list"

record result =
  score :: real
  is_match_r :: bool
  matched :: "(ref \<times> ref) list"
  possible :: "(ref \<times> ref set) list"
  old_not_matched :: "ref set"
  new_not_matched :: "ref set"

type_synonym mstate = "match_info \<times> result"

text \<open>
  The two statements that every phase runs when it settles a pair:
  \<open>result.matched[old] = candidate\<close> and \<open>info.matched.update([old, candidate])\<close>.
\<close>

definition commit :: "ref \<Rightarrow> ref \<Rightarrow> mstate \<Rightarrow> mstate" where
  "commit old_child candidate s =
     (case s of (info, res) \<Rightarrow>
        (info\<lparr>info_matched := info_matched info \<union> {Old old_child, New candidate}\<rparr>,
         res\<lparr>matched := AList.update old_child candidate (matched res)\<rparr>))"

text \<open>The inner loop of the phases: the unmatched new nodes that the predicate accepts.\<close>

definition collect :: "(element \<Rightarrow> element \<Rightarrow> bool) \<Rightarrow> match_info \<Rightarrow> ref \<Rightarrow> ref list \<Rightarrow> ref list" where
  "collect predictor info old_child news =
     filter (\<lambda>n. New n \<notin> info_matched info
                 \<and> predictor (node (old info) old_child) (node (new info) n)) news"

text \<open>\<open>match_sibling\<close>: the loop body, then the function.\<close>

definition sibling_step :: "ref list \<Rightarrow> ref \<Rightarrow> mstate \<Rightarrow> mstate" where
  "sibling_step new_siblings old_sibling s =
     (case s of (info, res) \<Rightarrow>
        if Old old_sibling \<in> info_matched info then s
        else (let candidates = collect (\<lambda>a b. is_match a b False) info old_sibling new_siblings
              in if length candidates = 1 then commit old_sibling (candidates ! 0) s else s))"

definition match_sibling :: "ref \<Rightarrow> ref \<Rightarrow> mstate \<Rightarrow> mstate" where
  "match_sibling old_n new_n s =
     (case s of (info, res) \<Rightarrow>
        (case (map_of (non_overlap (old info)) old_n, map_of (non_overlap (new info)) new_n) of
           (Some old_parent, Some new_parent) \<Rightarrow>
             (let info1 = info\<lparr>matched_parents :=
                                AList.update old_parent new_parent (matched_parents info)\<rparr>;
                  old_siblings = map fst (filter (\<lambda>(k, v). v = old_parent \<and> k \<noteq> old_n)
                                            (non_overlap (old info)));
                  new_siblings = map fst (filter (\<lambda>(k, v). v = new_parent \<and> k \<noteq> new_n)
                                            (non_overlap (new info)))
              in fold (sibling_step new_siblings) old_siblings (info1, res))
         | _ \<Rightarrow> s))"

text \<open>
  \<open>match_sure\<close>: one round of the \<open>for\<close> loop over the old candidates, with the flag
  \<open>update\<close>, and the \<open>while\<close> loop around it.
\<close>

definition sure_step :: "(element \<Rightarrow> element \<Rightarrow> bool) \<Rightarrow> ref list \<Rightarrow> ref \<Rightarrow> bool \<times> mstate
    \<Rightarrow> bool \<times> mstate" where
  "sure_step predictor new_candidates old_child us =
     (case us of (update, info, res) \<Rightarrow>
        if Old old_child \<in> info_matched info then us
        else (let candidates = collect predictor info old_child new_candidates
              in if length candidates = 1
                 then (True, match_sibling old_child (candidates ! 0)
                               (commit old_child (candidates ! 0) (info, res)))
                 else us))"

definition sure_pass :: "(element \<Rightarrow> element \<Rightarrow> bool) \<Rightarrow> ref list \<Rightarrow> ref list \<Rightarrow> mstate
    \<Rightarrow> bool \<times> mstate" where
  "sure_pass predictor old_candidates new_candidates s =
     fold (sure_step predictor new_candidates) old_candidates (False, s)"

text \<open>The number of old candidates that are still unmatched: it falls with every round.\<close>

definition unmatched_old :: "ref list \<Rightarrow> mstate \<Rightarrow> nat" where
  "unmatched_old olds s = card {k \<in> set olds. Old k \<notin> info_matched (fst s)}"

function match_sure_loop :: "(element \<Rightarrow> element \<Rightarrow> bool) \<Rightarrow> ref list \<Rightarrow> ref list \<Rightarrow> mstate
    \<Rightarrow> mstate" where
  "match_sure_loop predictor old_candidates new_candidates s =
     (case sure_pass predictor old_candidates new_candidates s of
        (update, s') \<Rightarrow>
          if update then match_sure_loop predictor old_candidates new_candidates s' else s')"
  by pat_completeness auto
termination
proof (relation "measure (\<lambda>(predictor, old_candidates, new_candidates, s).
                   unmatched_old old_candidates s)")
  show "wf (measure (\<lambda>(predictor, old_candidates, new_candidates, s).
                   unmatched_old old_candidates s))"
    by simp
next
  fix predictor :: "element \<Rightarrow> element \<Rightarrow> bool"
    and old_candidates new_candidates :: "ref list"
    and s s' :: mstate and update :: bool
  assume us: "(update, s') = sure_pass predictor old_candidates new_candidates s"
    and u: "update"
  have commit_grows: "info_matched (fst t) \<subseteq> info_matched (fst (commit a b t))"
    for a b and t :: mstate
    by (cases t) (auto simp: commit_def)
  have sibling_step_grows:
    "info_matched (fst t) \<subseteq> info_matched (fst (sibling_step ns k t))"
    for ns k and t :: mstate
    using commit_grows [of t k] by (cases t) (auto simp: sibling_step_def Let_def)
  have sibling_fold_grows:
    "info_matched (fst t) \<subseteq> info_matched (fst (fold (sibling_step ns) ks t))"
    for ns ks and t :: mstate
  proof (induction ks arbitrary: t)
    case Nil
    show ?case by simp
  next
    case (Cons k ks)
    from sibling_step_grows [of t ns k] Cons [of "sibling_step ns k t"] show ?case by auto
  qed
  have match_sibling_grows:
    "info_matched (fst t) \<subseteq> info_matched (fst (match_sibling a b t))"
    for a b and t :: mstate
  proof (cases t)
    case (Pair info res)
    show ?thesis
    proof (cases "map_of (non_overlap (old info)) a")
      case None
      with Pair show ?thesis by (simp add: match_sibling_def)
    next
      case (Some op)
      show ?thesis
      proof (cases "map_of (non_overlap (new info)) b")
        case None
        with Pair Some show ?thesis by (simp add: match_sibling_def)
      next
        case (Some np)
        from sibling_fold_grows
          [of "(info\<lparr>matched_parents := AList.update op np (matched_parents info)\<rparr>, res)"]
        show ?thesis
          using Pair \<open>map_of (non_overlap (old info)) a = Some op\<close> Some
          by (simp add: match_sibling_def Let_def)
      qed
    qed
  qed
  have step: "info_matched (fst t) \<subseteq> info_matched (fst t')
      \<and> (v' \<longrightarrow> v \<or> (Old k \<notin> info_matched (fst t) \<and> Old k \<in> info_matched (fst t')))"
    if "sure_step predictor new_candidates k (v, t) = (v', t')"
    for k v v' and t t' :: mstate
  proof (cases t)
    case (Pair info res)
    show ?thesis
    proof (cases "Old k \<notin> info_matched info
        \<and> length (collect predictor info k new_candidates) = 1")
      case False
      with that Pair show ?thesis by (auto simp: sure_step_def Let_def split: if_splits)
    next
      case True
      let ?c = "collect predictor info k new_candidates ! 0"
      from that Pair True have t': "t' = match_sibling k ?c (commit k ?c (info, res))"
        by (auto simp: sure_step_def Let_def)
      have "Old k \<in> info_matched (fst (commit k ?c (info, res)))"
        by (simp add: commit_def)
      with match_sibling_grows [of "commit k ?c (info, res)" k ?c] commit_grows [of "(info, res)" k ?c]
      show ?thesis using True Pair t' by auto
    qed
  qed
  have pass: "info_matched (fst t) \<subseteq> info_matched (fst t')
      \<and> (v' \<longrightarrow> v \<or> (\<exists>k \<in> set ks. Old k \<notin> info_matched (fst t) \<and> Old k \<in> info_matched (fst t')))"
    if "fold (sure_step predictor new_candidates) ks (v, t) = (v', t')"
    for ks v v' and t t' :: mstate
    using that
  proof (induction ks arbitrary: v t)
    case Nil
    then show ?case by simp
  next
    case (Cons k ks)
    obtain v1 t1 where s1: "sure_step predictor new_candidates k (v, t) = (v1, t1)"
      by (cases "sure_step predictor new_candidates k (v, t)")
    with Cons.prems have "fold (sure_step predictor new_candidates) ks (v1, t1) = (v', t')"
      by simp
    from Cons.IH [OF this] step [OF s1] show ?case by auto
  qed
  from us have "fold (sure_step predictor new_candidates) old_candidates (False, s) = (update, s')"
    by (simp add: sure_pass_def)
  from pass [OF this] u obtain k where k: "k \<in> set old_candidates"
    "Old k \<notin> info_matched (fst s)" "Old k \<in> info_matched (fst s')"
    and sub: "info_matched (fst s) \<subseteq> info_matched (fst s')"
    by auto
  have "{k \<in> set old_candidates. Old k \<notin> info_matched (fst s')}
      \<subset> {k \<in> set old_candidates. Old k \<notin> info_matched (fst s)}"
    using k sub by auto
  then have "unmatched_old old_candidates s' < unmatched_old old_candidates s"
    unfolding unmatched_old_def by (intro psubset_card_mono) simp_all
  then show "((predictor, old_candidates, new_candidates, s'),
        (predictor, old_candidates, new_candidates, s))
      \<in> measure (\<lambda>(predictor, old_candidates, new_candidates, s). unmatched_old old_candidates s)"
    by simp
qed

text \<open>
  \<open>match_sure\<close>.  The two candidate sets are set differences; they are iterated in the
  order of \<open>children\<close>.
\<close>

definition match_sure :: "(element \<Rightarrow> element \<Rightarrow> bool) \<Rightarrow> mstate \<Rightarrow> mstate" where
  "match_sure predictor s =
     (case s of (info, res) \<Rightarrow>
        let old_candidates = filter (\<lambda>n. n \<notin> set (non_unique (old info))) (children_l (old info));
            new_candidates = filter (\<lambda>n. n \<notin> set (non_unique (new info))) (children_l (new info))
        in match_sure_loop predictor old_candidates new_candidates s)"

definition exclude_set :: "string set" where
  "exclude_set = {''android.widget.CheckBox'', ''android.widget.EditText'', ''android.widget.Switch''}"

text \<open>The filter that \<open>sift_match\<close> puts on the nodes of either side.\<close>

definition sift_eligible :: "match_info \<Rightarrow> node_ref \<Rightarrow> element \<Rightarrow> bool" where
  "sift_eligible info r n =
     (r \<notin> info_matched info \<and> get_d n ''text'' [] = []
      \<and> (case get n ''class'' of None \<Rightarrow> True | Some c \<Rightarrow> c \<notin> exclude_set))"

text \<open>The test on one new child: the share of the mapped key points that lie in it.\<close>

definition sift_accepts :: "keypoint list \<Rightarrow> nat \<Rightarrow> element \<Rightarrow> py_error + bool" where
  "sift_accepts old_matches n_old_points new_child =
     (case filter_result (\<lambda>point. is_in_bound point new_child) old_matches of
        Inl e \<Rightarrow> Inl e
      | Inr inside \<Rightarrow> Inr (real (length inside) / real n_old_points \<ge> 0.6))"

definition sift_step :: "ref \<Rightarrow> bool \<times> mstate \<Rightarrow> py_error + bool \<times> mstate" where
  "sift_step old_child us =
     (case us of (update, info, res) \<Rightarrow>
        if \<not> sift_eligible info (Old old_child) (node (old info) old_child) then Inr us
        else (case filter_result (\<lambda>(point, m). is_in_bound point (node (old info) old_child))
                     (matched_points info) of
                Inl e \<Rightarrow> Inl e
              | Inr old_points \<Rightarrow>
                  if length old_points < 1 then Inr us
                  else (let old_matches = map snd old_points
                        in case filter_result
                                  (\<lambda>n. sift_accepts old_matches (length old_points) (node (new info) n))
                                  (filter (\<lambda>n. sift_eligible info (New n) (node (new info) n))
                                     (children_l (new info))) of
                             Inl e \<Rightarrow> Inl e
                           | Inr candidates \<Rightarrow>
                               if length candidates = 1
                               then Inr (True, commit old_child (candidates ! 0) (info, res))
                               else Inr us)))"

definition sift_pass :: "mstate \<Rightarrow> py_error + bool \<times> mstate" where
  "sift_pass s = fold_result sift_step (children_l (old (fst s))) (False, s)"

function sift_match :: "mstate \<Rightarrow> py_error + mstate" where
  "sift_match s =
     (case sift_pass s of
        Inl e \<Rightarrow> Inl e
      | Inr (update, s') \<Rightarrow> if update then sift_match s' else Inr s')"
  by pat_completeness auto
termination
proof (relation "measure (\<lambda>s. unmatched_old (children_l (old (fst s))) s)")
  show "wf (measure (\<lambda>s. unmatched_old (children_l (old (fst s))) s))"
    by simp
next
  fix s s' :: mstate and b :: "bool \<times> mstate" and update :: bool
  assume sp: "sift_pass s = Inr b" and b: "(update, s') = b" and u: "update"
  from sp b have us: "sift_pass s = Inr (update, s')" by simp
  have commit_keeps: "old (fst (commit a b t)) = old (fst t)
      \<and> info_matched (fst t) \<subseteq> info_matched (fst (commit a b t))"
    for a b and t :: mstate
    by (cases t) (auto simp: commit_def)
  have step: "old (fst t') = old (fst t) \<and> info_matched (fst t) \<subseteq> info_matched (fst t')
      \<and> (v' \<longrightarrow> v \<or> (Old k \<notin> info_matched (fst t) \<and> Old k \<in> info_matched (fst t')))"
    if "sift_step k (v, t) = Inr (v', t')"
    for k v v' and t t' :: mstate
  proof (cases t)
    case (Pair info res)
    from that Pair consider (same) "(v', t') = (v, t)"
      | (new) c where "Old k \<notin> info_matched info" "(v', t') = (True, commit k c (info, res))"
      by (auto simp: sift_step_def sift_eligible_def Let_def split: if_splits sum.splits)
    then show ?thesis
    proof cases
      case same
      then show ?thesis by simp
    next
      case new
      have "Old k \<in> info_matched (fst (commit k c (info, res)))" by (simp add: commit_def)
      with new commit_keeps [of k c "(info, res)"] Pair show ?thesis by auto
    qed
  qed
  have pass: "old (fst t') = old (fst t) \<and> info_matched (fst t) \<subseteq> info_matched (fst t')
      \<and> (v' \<longrightarrow> v \<or> (\<exists>k \<in> set ks. Old k \<notin> info_matched (fst t) \<and> Old k \<in> info_matched (fst t')))"
    if "fold_result sift_step ks (v, t) = Inr (v', t')"
    for ks v v' and t t' :: mstate
    using that
  proof (induction ks arbitrary: v t)
    case Nil
    then show ?case by simp
  next
    case (Cons k ks)
    from Cons.prems obtain v1 t1 where s1: "sift_step k (v, t) = Inr (v1, t1)"
      and r: "fold_result sift_step ks (v1, t1) = Inr (v', t')"
      by (auto split: sum.splits)
    from Cons.IH [OF r] step [OF s1] show ?case by auto
  qed
  from us have "fold_result sift_step (children_l (old (fst s))) (False, s) = Inr (update, s')"
    by (simp add: sift_pass_def)
  from pass [OF this] u obtain k where k: "k \<in> set (children_l (old (fst s)))"
    "Old k \<notin> info_matched (fst s)" "Old k \<in> info_matched (fst s')"
    and sub: "info_matched (fst s) \<subseteq> info_matched (fst s')"
    and same: "old (fst s') = old (fst s)"
    by auto
  have "{k \<in> set (children_l (old (fst s))). Old k \<notin> info_matched (fst s')}
      \<subset> {k \<in> set (children_l (old (fst s))). Old k \<notin> info_matched (fst s)}"
    using k sub by auto
  then have "unmatched_old (children_l (old (fst s'))) s' < unmatched_old (children_l (old (fst s))) s"
    unfolding unmatched_old_def same by (intro psubset_card_mono) simp_all
  then show "(s', s) \<in> measure (\<lambda>s. unmatched_old (children_l (old (fst s))) s)"
    by simp
qed

text \<open>\<open>match_parents\<close>, with its own set of used parents.\<close>

definition parents_step :: "(element \<Rightarrow> element \<Rightarrow> bool) \<Rightarrow> ref \<Rightarrow> node_ref set \<times> match_info
    \<Rightarrow> node_ref set \<times> match_info" where
  "parents_step predictor old_parent mi =
     (case mi of (used, info) \<Rightarrow>
        if Old old_parent \<in> used then mi
        else (let candidates = filter (\<lambda>n. New n \<notin> used
                                 \<and> predictor (node (old info) old_parent) (node (new info) n))
                                (parents (new info))
              in if length candidates = 1
                 then (used \<union> {Old old_parent, New (candidates ! 0)},
                       info\<lparr>matched_parents :=
                              AList.update old_parent (candidates ! 0) (matched_parents info)\<rparr>)
                 else mi))"

definition match_parents :: "(element \<Rightarrow> element \<Rightarrow> bool) \<Rightarrow> match_info \<Rightarrow> match_info" where
  "match_parents predictor info =
     snd (fold (parents_step predictor) (parents (old info)) ({}, info))"

text \<open>\<open>optimize_match\<close>: below each pair of matched parents.\<close>

definition optimize_step :: "(element \<Rightarrow> element \<Rightarrow> bool) \<Rightarrow> ref list \<Rightarrow> ref \<Rightarrow> mstate \<Rightarrow> mstate" where
  "optimize_step predictor new_children old_child s =
     (case s of (info, res) \<Rightarrow>
        if Old old_child \<in> info_matched info then s
        else (let candidates = collect predictor info old_child new_children
              in if length candidates = 1 then commit old_child (candidates ! 0) s else s))"

definition optimize_pair :: "(element \<Rightarrow> element \<Rightarrow> bool) \<Rightarrow> ref \<times> ref \<Rightarrow> mstate \<Rightarrow> mstate" where
  "optimize_pair predictor pp s =
     (case pp of (old_parent, new_parent) \<Rightarrow>
        let old_children = filter (\<lambda>n. n \<in> set (children_l (old (fst s))))
                             (iter_refs (old (fst s)) old_parent);
            new_children = filter (\<lambda>n. n \<in> set (children_l (new (fst s))))
                             (iter_refs (new (fst s)) new_parent)
        in fold (optimize_step predictor new_children) old_children s)"

definition optimize_match :: "(element \<Rightarrow> element \<Rightarrow> bool) \<Rightarrow> mstate \<Rightarrow> mstate" where
  "optimize_match predictor s = fold (optimize_pair predictor) (matched_parents (fst s)) s"

text \<open>\<open>unique_match\<close>.\<close>

definition unique_step :: "ref \<Rightarrow> mstate \<Rightarrow> mstate" where
  "unique_step old_child s =
     (case s of (info, res) \<Rightarrow>
        if Old old_child \<in> info_matched info then s
        else (let candidates =
                    collect (\<lambda>a b. attr_equal a b ''class'' None
                               \<and> get_d a ''class'' [] = ''android.widget.EditText'')
                       info old_child (unique_children (new info))
              in if length candidates = 1 then commit old_child (candidates ! 0) s else s))"

definition unique_match :: "mstate \<Rightarrow> mstate" where
  "unique_match s = fold unique_step (unique_children (old (fst s))) s"

text \<open>\<open>match_possible\<close>, with its local function \<open>get_unique_possible\<close>.\<close>

definition get_unique_possible :: "match_info \<Rightarrow> string \<Rightarrow> ref \<Rightarrow> ref list \<Rightarrow> ref option" where
  "get_unique_possible info attr old_n candidates =
     (let old_attr = lower (get_d (node (old info) old_n) attr []);
          attr_candidates =
            filter (\<lambda>c. lower (get_d (node (new info) c) attr []) = old_attr
                      \<and> get_d (node (new info) c) ''class'' [] = get_d (node (old info) old_n) ''class'' [])
              candidates
      in if old_attr \<noteq> [] \<and> length attr_candidates = 1 then Some (attr_candidates ! 0) else None)"

definition unique_possible :: "match_info \<Rightarrow> ref \<Rightarrow> ref list \<Rightarrow> ref option" where
  "unique_possible info old_child candidates =
     (case get_unique_possible info ''text'' old_child candidates of
        Some c \<Rightarrow> Some c
      | None \<Rightarrow>
          (case get_unique_possible info ''content-desc'' old_child candidates of
             Some c \<Rightarrow> Some c
           | None \<Rightarrow>
               (case get_unique_possible info ''resource-id'' old_child candidates of
                  Some c \<Rightarrow> if map_of (non_overlap (old info)) old_child = None then Some c else None
                | None \<Rightarrow> None)))"

definition possible_step :: "(element \<Rightarrow> element \<Rightarrow> bool) \<Rightarrow> ref \<Rightarrow> mstate \<Rightarrow> mstate" where
  "possible_step predictor old_child s =
     (case s of (info, res) \<Rightarrow>
        if Old old_child \<in> info_matched info then s
        else (let candidates = collect predictor info old_child (children_l (new info))
              in if length candidates > 0
                 then (case unique_possible info old_child candidates of
                         Some candidate \<Rightarrow> commit old_child candidate s
                       | None \<Rightarrow>
                           (info, res\<lparr>possible :=
                                         AList.update old_child (set candidates) (possible res)\<rparr>))
                 else s))"

definition match_possible :: "(element \<Rightarrow> element \<Rightarrow> bool) \<Rightarrow> mstate \<Rightarrow> mstate" where
  "match_possible predictor s = fold (possible_step predictor) (children_l (old (fst s))) s"

text \<open>The last two steps: the unmatched nodes and the score.\<close>

definition set_not_match :: "match_info \<Rightarrow> result \<Rightarrow> result" where
  "set_not_match info res =
     (let new_possible = fold (\<lambda>y x. x \<union> y) (map snd (possible res)) {}
      in res\<lparr>old_not_matched :=
                {x \<in> set (children_l (old info)).
                   x \<notin> fst ` set (matched res) \<and> x \<notin> fst ` set (possible res)},
              new_not_matched :=
                {x \<in> set (children_l (new info)).
                   x \<notin> snd ` set (matched res) \<and> x \<notin> new_possible}\<rparr>)"

definition match_threshold :: real where
  "match_threshold = 0.8"

text \<open>The old nodes left over are the members of a finite set, so \<open>len\<close> is \<open>card\<close>.\<close>

definition set_match_score :: "result \<Rightarrow> result" where
  "set_match_score res =
     (let matched_num = length (matched res);
          possible_num = length (possible res);
          not_match = card (old_not_matched res);
          total = matched_num + possible_num + not_match;
          sc = (if total \<noteq> 0 then real (matched_num + possible_num) / real total else 0)
      in res\<lparr>score := sc, is_match_r := (sc \<ge> match_threshold)\<rparr>)"

definition new_result :: result where
  "new_result = \<lparr>score = 0, is_match_r = False, matched = [], possible = [],
                 old_not_matched = {}, new_not_matched = {}\<rparr>"

text \<open>
  \<open>MatchInfo(old, new)\<close>.  The key point pairs come from OpenCV; \<open>sift\<close> stands for
  that computation on two screenshots, which is skipped when either is empty.
\<close>

definition new_info :: "(string \<Rightarrow> string \<Rightarrow> (keypoint \<times> keypoint) list) \<Rightarrow> layout \<Rightarrow> layout
    \<Rightarrow> match_info" where
  "new_info sift old_layout new_layout =
     \<lparr>old = old_layout, new = new_layout, info_matched = {}, matched_parents = [],
      matched_points = (if length (png old_layout) = 0 \<or> length (png new_layout) = 0 then []
                        else sift (png old_layout) (png new_layout))\<rparr>"

text \<open>The phases that settle pairs for good, up to \<open>unique_match\<close>.\<close>

definition match_definite :: "(string \<Rightarrow> string \<Rightarrow> real)
    \<Rightarrow> (string \<Rightarrow> string \<Rightarrow> (keypoint \<times> keypoint) list) \<Rightarrow> layout \<Rightarrow> layout
    \<Rightarrow> py_error + mstate" where
  "match_definite ratio sift old_layout new_layout =
     (let s0 = (new_info sift old_layout new_layout, new_result);
          s1 = match_sure (\<lambda>x y. is_match x y True) s0;
          s2 = match_sure (\<lambda>x y. is_like ratio x y True) s1
      in case sift_match s2 of
           Inl e \<Rightarrow> Inl e
         | Inr (info3, res3) \<Rightarrow>
             (let info4 = match_parents (\<lambda>x y. is_match x y False) info3;
                  s5 = optimize_match (\<lambda>x y. is_like ratio x y False) (info4, res3)
              in Inr (unique_match s5)))"

definition match_layout :: "(string \<Rightarrow> string \<Rightarrow> real)
    \<Rightarrow> (string \<Rightarrow> string \<Rightarrow> (keypoint \<times> keypoint) list) \<Rightarrow> layout \<Rightarrow> layout
    \<Rightarrow> py_error + result" where
  "match_layout ratio sift old_layout new_layout =
     (case match_definite ratio sift old_layout new_layout of
        Inl e \<Rightarrow> Inl e
      | Inr s6 \<Rightarrow>
          (case match_possible (\<lambda>x y. is_match x y False) s6 of
             (info, res) \<Rightarrow> Inr (set_match_score (set_not_match info res))))"

section \<open>Properties of the matching state\<close>

text \<open>
  \<open>tidy\<close>: the dictionary \<open>result.matched\<close> has each key once, and both nodes of every
  settled pair are in \<open>info.matched\<close>.
\<close>

definition tidy :: "mstate \<Rightarrow> bool" where
  "tidy s =
     (distinct (map fst (matched (snd s)))
      \<and> (\<forall>(k, v) \<in> set (matched (snd s)).
            Old k \<in> info_matched (fst s) \<and> New v \<in> info_matched (fst s)))"

text \<open>
  \<open>settled s s'\<close>: from \<open>s\<close> to \<open>s'\<close> the layouts stay, \<open>info.matched\<close> and the settled
  pairs only grow, and \<open>result.possible\<close> stays.
\<close>

definition settled :: "mstate \<Rightarrow> mstate \<Rightarrow> bool" where
  "settled s s' =
     (old (fst s') = old (fst s) \<and> new (fst s') = new (fst s)
      \<and> info_matched (fst s) \<subseteq> info_matched (fst s')
      \<and> set (matched (snd s)) \<subseteq> set (matched (snd s'))
      \<and> possible (snd s') = possible (snd s))"

section \<open>Evaluation lemmas\<close>

lemma coordinates_example:
  "coordinates_str ''[189,1174][404,1231]'' = (189, 1174, 404, 1231)"
  by (simp add: coordinates_str_def match_bound_def pair_of_numbers_def number_def expect_def
      is_digit_def is_space_def int_of_digits_def digit_val_def)

lemmas scan_defs = coordinates_def coordinates_str_def match_bound_def pair_of_numbers_def
  number_def expect_def is_digit_def is_space_def int_of_digits_def digit_val_def

lemmas norm_defs = attr_equal_def lower_def lower_char_def strip_def is_space_def get_d_def
  get_def

section \<open>Locator serialisation\<close>

lemma criterion_of_name_name: "criterion_of_name (criterion_name k) = Some k"
  by (cases k) (simp_all add: criterion_of_name_def)

lemma update_fresh: "k \<notin> fst ` set al \<Longrightarrow> AList.update k v al = al @ [(k, v)]"
  by (induction al) auto

lemma from_dict_items_names:
  "distinct (map fst (acc @ cs)) \<Longrightarrow>
   from_dict_items (map (\<lambda>(k, v). (criterion_name k, v)) cs) acc = acc @ cs"
proof (induction cs arbitrary: acc)
  case Nil
  then show ?case by simp
next
  case (Cons kv cs)
  obtain k v where kv: "kv = (k, v)" by (cases kv)
  from Cons.prems kv have fresh: "k \<notin> fst ` set acc" by auto
  from Cons.prems kv have d: "distinct (map fst ((acc @ [(k, v)]) @ cs))" by auto
  show ?case
    using Cons.IH [OF d] by (simp add: kv criterion_of_name_name update_fresh [OF fresh])
qed

section \<open>Printing and reading integers\<close>

declare str_nat.simps [simp del]

lemma digit_cases: "d < 10 \<Longrightarrow> d \<in> {0, 1, 2, 3, 4, 5, 6, 7, 8, 9::nat}"
  by auto

lemma digit_char_digit: "d < 10 \<Longrightarrow> is_digit (digit_char d)"
  using digit_cases [of d] by (auto simp: digit_char_def is_digit_def)

lemma digit_val_char: "d < 10 \<Longrightarrow> digit_val (digit_char d) = int d"
  using digit_cases [of d] by (auto simp: digit_char_def digit_val_def)

lemma str_nat_digits: "set (str_nat n) \<subseteq> Collect is_digit"
proof (induction n rule: str_nat.induct)
  case (1 n)
  show ?case
  proof (cases "n < 10")
    case True
    then show ?thesis by (simp add: str_nat.simps [of n] digit_char_digit)
  next
    case False
    with 1 show ?thesis by (simp add: str_nat.simps [of n] digit_char_digit)
  qed
qed

lemma str_nat_nonempty: "str_nat n \<noteq> []"
  by (simp add: str_nat.simps [of n])

lemma int_of_digits_snoc: "int_of_digits (ds @ [c]) = 10 * int_of_digits ds + digit_val c"
  by (simp add: int_of_digits_def)

lemma int_of_digits_str_nat: "int_of_digits (str_nat n) = int n"
proof (induction n rule: str_nat.induct)
  case (1 n)
  show ?case
  proof (cases "n < 10")
    case True
    then show ?thesis by (simp add: str_nat.simps [of n] int_of_digits_def digit_val_char)
  next
    case False
    with 1 have "int_of_digits (str_nat (n div 10)) = int (n div 10)" by simp
    moreover have "10 * int (n div 10) + int (n mod 10) = int n" by presburger
    ultimately show ?thesis using False
      by (simp add: str_nat.simps [of n] int_of_digits_snoc digit_val_char)
  qed
qed

lemma digit_not_space: "is_digit c \<Longrightarrow> \<not> is_space c"
  by (auto simp: is_digit_def is_space_def Let_def)

lemma digit_not_int_space: "is_digit c \<Longrightarrow> \<not> is_int_space c"
  by (auto simp: is_digit_def is_int_space_def Let_def)

lemma int_strip_id:
  "s \<noteq> [] \<Longrightarrow> \<not> is_int_space (hd s) \<Longrightarrow> \<not> is_int_space (last s) \<Longrightarrow> int_strip s = s"
proof -
  assume s: "s \<noteq> []" and h: "\<not> is_int_space (hd s)" and l: "\<not> is_int_space (last s)"
  from s h have a: "dropWhile is_int_space s = s" by (cases s) auto
  from s l have "dropWhile is_int_space (rev s) = rev s" by (cases s rule: rev_cases) auto
  with a show ?thesis by (simp add: int_strip_def)
qed


lemma all_digits_ends:
  "s \<noteq> [] \<Longrightarrow> set s \<subseteq> Collect is_digit \<Longrightarrow> is_digit (hd s) \<and> is_digit (last s)"
  using hd_in_set [of s] last_in_set [of s] by blast

lemma single_underscores_digits: "set s \<subseteq> Collect is_digit \<Longrightarrow> single_underscores s"
proof (induction s rule: single_underscores.induct)
  case (1 a b r)
  have "\<not> is_digit (CHR ''_'')" by (simp add: is_digit_def)
  with 1 show ?case by auto
qed simp_all

lemma py_digits_all: "s \<noteq> [] \<Longrightarrow> set s \<subseteq> Collect is_digit \<Longrightarrow> py_digits s = Some (int_of_digits s)"
proof -
  assume s: "s \<noteq> []" and d: "set s \<subseteq> Collect is_digit"
  from d have f: "filter is_digit s = s" by (auto simp: filter_id_conv)
  from s d have h: "is_digit (hd s)" "is_digit (last s)" using all_digits_ends by blast+
  from d have "\<forall>c \<in> set s. is_digit c \<or> c = CHR ''_''" by auto
  with s h f single_underscores_digits [OF d] show ?thesis by (simp add: py_digits_def)
qed

lemma py_int_str_nat: "py_int (str_nat n) = Inr (int n)"
proof -
  let ?s = "str_nat n"
  have ne: "?s \<noteq> []" by (rule str_nat_nonempty)
  have dg: "set ?s \<subseteq> Collect is_digit" by (rule str_nat_digits)
  from ne dg have "is_digit (hd ?s)" "is_digit (last ?s)" using all_digits_ends by blast+
  then have st: "int_strip ?s = ?s" using ne by (simp add: int_strip_id digit_not_int_space)
  obtain c r where cr: "?s = c # r" using ne by (cases ?s) auto
  with dg have c: "is_digit c" by auto
  then have "c \<noteq> CHR ''-''" "c \<noteq> CHR ''+''" by (auto simp: is_digit_def)
  moreover have "py_digits (c # r) = Some (int n)"
    using py_digits_all [OF ne dg] by (simp add: cr [symmetric] int_of_digits_str_nat)
  moreover from st cr have "int_strip (c # r) = c # r" by simp
  ultimately show ?thesis by (simp add: py_int_def cr)
qed

lemma py_int_str_int: "py_int (str_int i) = Inr i"
proof (cases "i < 0")
  case False
  then show ?thesis by (simp add: str_int_def py_int_str_nat)
next
  case True
  let ?s = "str_nat (nat (- i))"
  have ne: "?s \<noteq> []" by (rule str_nat_nonempty)
  have dg: "set ?s \<subseteq> Collect is_digit" by (rule str_nat_digits)
  from ne dg have "is_digit (last ?s)" using all_digits_ends by blast
  then have "\<not> is_int_space (last (CHR ''-'' # ?s))" using ne by (simp add: digit_not_int_space)
  moreover have "\<not> is_int_space (CHR ''-'')" by (simp add: is_int_space_def)
  ultimately have st: "int_strip (CHR ''-'' # ?s) = CHR ''-'' # ?s" by (simp add: int_strip_id)
  have "py_digits ?s = Some (int (nat (- i)))"
    using py_digits_all [OF ne dg] by (simp add: int_of_digits_str_nat)
  with True show ?thesis by (simp add: str_int_def py_int_def st)
qed

section \<open>Locators from nodes\<close>

lemma py_int_minus_one: "py_int ''-1'' = Inr (- 1)"
  by (simp add: py_int_def int_strip_def py_digits_def is_int_space_def is_digit_def
      int_of_digits_def digit_val_def)

lemma from_node_chosen:
  assumes "chosen_attr n = (a, c)" and "get n (a @ ''-index'') = Some ''-1''"
  shows "from_node n = Inr \<lparr>criteria = [(c, get_d n a [])], index = - 1\<rparr>"
proof -
  from assms(2) have "get_d n (a @ ''-index'') ''0'' = ''-1''"
    by (simp add: get_def get_d_def)
  then have "from_node_attr n a c (get_d n a []) = Inr \<lparr>criteria = [(c, get_d n a [])], index = - 1\<rparr>"
    by (simp add: from_node_attr_def py_int_minus_one)
  with assms(1) show ?thesis
    by (auto simp: from_node_def chosen_attr_def split: if_splits)
qed

lemma py_index_last: "xs \<noteq> [] \<Longrightarrow> py_index xs (- 1) = Inr (last xs)"
proof -
  assume "xs \<noteq> []"
  then obtain ys y where xs: "xs = ys @ [y]" by (cases xs rule: rev_cases) auto
  show ?thesis by (simp add: xs py_index_def nth_append)
qed

lemma py_index_below: "i < - int (length xs) \<Longrightarrow> py_index xs i = Inl IndexError"
  by (simp add: py_index_def)

section \<open>Preprocessing\<close>

lemma int_of_digits_nonneg_aux:
  "0 \<le> acc \<Longrightarrow> \<forall>c \<in> set ds. is_digit c \<Longrightarrow> 0 \<le> foldl (\<lambda>acc c. 10 * acc + digit_val c) acc ds"
proof (induction ds arbitrary: acc)
  case Nil
  then show ?case by simp
next
  case (Cons d ds)
  from Cons.prems have "0 \<le> digit_val d" by (simp add: is_digit_def digit_val_def Let_def)
  with Cons.prems have "0 \<le> 10 * acc + digit_val d" by simp
  with Cons show ?case by simp
qed

lemma number_nonneg: "number s = Some (v, r) \<Longrightarrow> 0 \<le> v"
proof -
  assume a: "number s = Some (v, r)"
  have "\<forall>c \<in> set (takeWhile is_digit s). is_digit c" by (auto dest: set_takeWhileD)
  then have "0 \<le> int_of_digits (takeWhile is_digit s)"
    unfolding int_of_digits_def by (intro int_of_digits_nonneg_aux) simp_all
  with a show ?thesis by (auto simp: number_def Let_def split: if_splits)
qed

lemma pair_of_numbers_nonneg: "pair_of_numbers s = Some ((a, b), r) \<Longrightarrow> 0 \<le> a \<and> 0 \<le> b"
  by (auto simp: pair_of_numbers_def split: Option.bind_splits) (blast dest: number_nonneg)+

lemma match_bound_nonneg:
  "match_bound s = Some (x0, y0, x1, y1) \<Longrightarrow> 0 \<le> x0 \<and> 0 \<le> y0 \<and> 0 \<le> x1 \<and> 0 \<le> y1"
  by (auto simp: match_bound_def split: Option.bind_splits if_splits)
    (blast dest: pair_of_numbers_nonneg)+

lemma coordinates_nonneg:
  "coordinates n = (x0, y0, x1, y1) \<Longrightarrow> 0 \<le> x0 \<and> 0 \<le> y0 \<and> 0 \<le> x1 \<and> 0 \<le> y1"
  by (auto simp: coordinates_def coordinates_str_def split: option.splits dest: match_bound_nonneg)


lemma iter_all_self: "n \<in> set (iter_all n)"
  by (cases n) simp

lemma denote_bounds_nodes:
  "n \<in> set (iter_all (denote_bounds t)) \<Longrightarrow>
   \<exists>m \<in> set (iter_all t). tag n = tag m \<and>
      attrib n = (if tag m = ''node'' then bounds_attrs m else attrib m)"
proof (induction t arbitrary: n)
  case (Element tg a cs)
  from Element.prems consider
      (self) "n = Element tg (if tg = ''node'' then bounds_attrs (Element tg a cs) else a)
                    (map denote_bounds cs)"
    | (below) c where "c \<in> set cs" and "n \<in> set (iter_all (denote_bounds c))"
    by auto
  then show ?case
  proof cases
    case self
    then show ?thesis by auto
  next
    case below
    from Element.IH [OF below] obtain m where "m \<in> set (iter_all c)" and
      "tag n = tag m \<and> attrib n = (if tag m = ''node'' then bounds_attrs m else attrib m)"
      by blast
    with below(1) show ?thesis by auto
  qed
qed

text \<open>What the attributes look like once \<open>denote_bounds\<close> has written the four fields.\<close>

lemma map_of_bounds_attrs:
  "map_of (bounds_attrs m) =
     (case coordinates m of (x0, y0, x1, y1) \<Rightarrow>
        (map_of (attrib m))(''x'' \<mapsto> str_int x0, ''y'' \<mapsto> str_int y0,
           ''w'' \<mapsto> str_int (x1 - x0), ''h'' \<mapsto> str_int (y1 - y0)))"
  by (simp add: bounds_attrs_def update_conv' split: prod.splits)

lemma get_d_attr_or_empty: "get_d n k [] = attr_or_empty (attrib n) k"
  by (simp add: get_d_def attr_or_empty_def)

text \<open>The value that \<open>denote_index\<close> writes for an attribute value \<open>v\<close>.\<close>

lemma denote_key_map:
  assumes "denote_key k (a, c) = (a', c')"
  shows "\<exists>s. map_of a' = (map_of a)(k @ ''-index'' \<mapsto> s)
           \<and> (if attr_or_empty a k \<noteq> [] then \<exists>i. s = str_nat i else s = str_int (- 1))"
  using assms by (auto simp: denote_key_def Let_def update_conv' split: if_splits)

lemma denote_node_map:
  assumes "\<not> startswith (attr_or_empty a ''resource-id'') ''com.google.android''"
  shows "\<exists>s1 s2 s3 s4.
     map_of (fst (denote_node a c)) =
       (map_of a)(''class-index'' \<mapsto> s1, ''resource-id-index'' \<mapsto> s2,
                  ''content-desc-index'' \<mapsto> s3, ''text-index'' \<mapsto> s4)
     \<and> (if attr_or_empty a ''class'' \<noteq> [] then \<exists>i. s1 = str_nat i else s1 = str_int (- 1))
     \<and> (if attr_or_empty a ''resource-id'' \<noteq> [] then \<exists>i. s2 = str_nat i else s2 = str_int (- 1))
     \<and> (if attr_or_empty a ''content-desc'' \<noteq> [] then \<exists>i. s3 = str_nat i else s3 = str_int (- 1))
     \<and> (if attr_or_empty a ''text'' \<noteq> [] then \<exists>i. s4 = str_nat i else s4 = str_int (- 1))"
proof -
  obtain a1 c1 where k1: "denote_key ''class'' (a, c) = (a1, c1)" by (cases "denote_key ''class'' (a, c)")
  obtain a2 c2 where k2: "denote_key ''resource-id'' (a1, c1) = (a2, c2)"
    by (cases "denote_key ''resource-id'' (a1, c1)")
  obtain a3 c3 where k3: "denote_key ''content-desc'' (a2, c2) = (a3, c3)"
    by (cases "denote_key ''content-desc'' (a2, c2)")
  obtain a4 c4 where k4: "denote_key ''text'' (a3, c3) = (a4, c4)"
    by (cases "denote_key ''text'' (a3, c3)")
  from denote_key_map [OF k1] obtain s1 where
    m1: "map_of a1 = (map_of a)(''class-index'' \<mapsto> s1)" and
    v1: "if attr_or_empty a ''class'' \<noteq> [] then \<exists>i. s1 = str_nat i else s1 = str_int (- 1)"
    by auto
  from denote_key_map [OF k2] obtain s2 where
    m2: "map_of a2 = (map_of a1)(''resource-id-index'' \<mapsto> s2)" and
    v2: "if attr_or_empty a1 ''resource-id'' \<noteq> [] then \<exists>i. s2 = str_nat i else s2 = str_int (- 1)"
    by auto
  from denote_key_map [OF k3] obtain s3 where
    m3: "map_of a3 = (map_of a2)(''content-desc-index'' \<mapsto> s3)" and
    v3: "if attr_or_empty a2 ''content-desc'' \<noteq> [] then \<exists>i. s3 = str_nat i else s3 = str_int (- 1)"
    by auto
  from denote_key_map [OF k4] obtain s4 where
    m4: "map_of a4 = (map_of a3)(''text-index'' \<mapsto> s4)" and
    v4: "if attr_or_empty a3 ''text'' \<noteq> [] then \<exists>i. s4 = str_nat i else s4 = str_int (- 1)"
    by auto
  have e2: "attr_or_empty a1 ''resource-id'' = attr_or_empty a ''resource-id''"
    by (simp add: attr_or_empty_def m1)
  have e3: "attr_or_empty a2 ''content-desc'' = attr_or_empty a ''content-desc''"
    by (simp add: attr_or_empty_def m1 m2)
  have e4: "attr_or_empty a3 ''text'' = attr_or_empty a ''text''"
    by (simp add: attr_or_empty_def m1 m2 m3)
  have "fst (denote_node a c) = a4"
    using assms by (simp add: denote_node_def counter_keys_def k1 k2 k3 k4)
  moreover have "map_of a4 = (map_of a)(''class-index'' \<mapsto> s1, ''resource-id-index'' \<mapsto> s2,
                  ''content-desc-index'' \<mapsto> s3, ''text-index'' \<mapsto> s4)"
    by (simp add: m1 m2 m3 m4)
  ultimately show ?thesis
    using v1 v2 [unfolded e2] v3 [unfolded e3] v4 [unfolded e4] by blast
qed

lemma denote_node_indexed:
  assumes "\<not> skipped a"
  shows "indexed (fst (denote_node a c))"
proof -
  from assms have ns: "\<not> startswith (attr_or_empty a ''resource-id'') ''com.google.android''"
    by (simp add: skipped_def)
  from denote_node_map [OF ns, of c] obtain s1 s2 s3 s4 where
    m: "map_of (fst (denote_node a c)) =
       (map_of a)(''class-index'' \<mapsto> s1, ''resource-id-index'' \<mapsto> s2,
                  ''content-desc-index'' \<mapsto> s3, ''text-index'' \<mapsto> s4)" and
    v: "if attr_or_empty a ''class'' \<noteq> [] then \<exists>i. s1 = str_nat i else s1 = str_int (- 1)"
       "if attr_or_empty a ''resource-id'' \<noteq> [] then \<exists>i. s2 = str_nat i else s2 = str_int (- 1)"
       "if attr_or_empty a ''content-desc'' \<noteq> [] then \<exists>i. s3 = str_nat i else s3 = str_int (- 1)"
       "if attr_or_empty a ''text'' \<noteq> [] then \<exists>i. s4 = str_nat i else s4 = str_int (- 1)"
    by blast
  have e: "attr_or_empty (fst (denote_node a c)) k = attr_or_empty a k"
    if "k \<in> set counter_keys" for k
    using that by (auto simp: attr_or_empty_def m counter_keys_def)
  show ?thesis
    unfolding indexed_def
  proof
    fix k assume k: "k \<in> set counter_keys"
    then consider "k = ''class''" | "k = ''resource-id''" | "k = ''content-desc''" | "k = ''text''"
      by (auto simp: counter_keys_def)
    then show "\<exists>s. map_of (fst (denote_node a c)) (k @ ''-index'') = Some s
        \<and> (if attr_or_empty (fst (denote_node a c)) k \<noteq> [] then \<exists>i. s = str_nat i
            else s = str_int (- 1))"
    proof cases
      case 1 with v(1) e [OF k] show ?thesis by (simp add: m)
    next
      case 2 with v(2) e [OF k] show ?thesis by (simp add: m)
    next
      case 3 with v(3) e [OF k] show ?thesis by (simp add: m)
    next
      case 4 with v(4) e [OF k] show ?thesis by (simp add: m)
    qed
  qed
qed

lemma denote_node_skipped: "skipped a \<Longrightarrow> denote_node a c = (a, c)"
  by (simp add: denote_node_def skipped_def)

lemma denote_node_keeps_skipped: "skipped (fst (denote_node a c)) = skipped a"
proof (cases "skipped a")
  case True
  then show ?thesis by (simp add: denote_node_skipped)
next
  case False
  then have ns: "\<not> startswith (attr_or_empty a ''resource-id'') ''com.google.android''"
    by (simp add: skipped_def)
  from denote_node_map [OF ns, of c] obtain s1 s2 s3 s4 where
    m: "map_of (fst (denote_node a c)) =
       (map_of a)(''class-index'' \<mapsto> s1, ''resource-id-index'' \<mapsto> s2,
                  ''content-desc-index'' \<mapsto> s3, ''text-index'' \<mapsto> s4)"
    by blast
  show ?thesis by (simp add: skipped_def attr_or_empty_def m)
qed

lemma denote_index_nodes:
  "n \<in> set (iter_all (fst (denote_index_from t c))) \<Longrightarrow> tag n = ''node'' \<Longrightarrow>
     \<not> skipped (attrib n) \<Longrightarrow> indexed (attrib n)"
  "n \<in> set (concat (map iter_all (fst (denote_index_list ts c)))) \<Longrightarrow> tag n = ''node'' \<Longrightarrow>
     \<not> skipped (attrib n) \<Longrightarrow> indexed (attrib n)"
proof (induction t c and ts c arbitrary: n and n rule: denote_index_from_denote_index_list.induct)
  case (1 t a cs c)
  obtain a' c1 where ac: "(if t = ''node'' then denote_node a c else (a, c)) = (a', c1)"
    by (cases "if t = ''node'' then denote_node a c else (a, c)")
  obtain cs' c2 where cs: "denote_index_list cs c1 = (cs', c2)"
    by (cases "denote_index_list cs c1")
  from "1.prems"(1) ac cs consider (self) "n = Element t a' cs'"
    | (below) "n \<in> set (concat (map iter_all cs'))"
    by auto
  then show ?case
  proof cases
    case self
    with "1.prems"(2) have t: "t = ''node''" by simp
    with ac have a': "a' = fst (denote_node a c)" by (metis fst_conv)
    from self "1.prems"(3) have "\<not> skipped a'" by simp
    with a' have "\<not> skipped a" by (simp add: denote_node_keeps_skipped)
    then show ?thesis using self a' by (simp add: denote_node_indexed)
  next
    case below
    with cs have "n \<in> set (concat (map iter_all (fst (denote_index_list cs c1))))" by simp
    from "1.IH" [OF ac [symmetric] refl this "1.prems"(2,3)] show ?thesis .
  qed
next
  case (2 c)
  then show ?case by simp
next
  case (3 e es c)
  obtain e' c1 where e: "denote_index_from e c = (e', c1)" by (cases "denote_index_from e c")
  obtain es' c2 where es: "denote_index_list es c1 = (es', c2)"
    by (cases "denote_index_list es c1")
  from "3.prems"(1) e es consider (head) "n \<in> set (iter_all e')"
    | (tail) "n \<in> set (concat (map iter_all es'))"
    by auto
  then show ?case
  proof cases
    case head
    with e have "n \<in> set (iter_all (fst (denote_index_from e c)))" by simp
    from "3.IH"(1) [OF this "3.prems"(2,3)] show ?thesis .
  next
    case tail
    with es have "n \<in> set (concat (map iter_all (fst (denote_index_list es c1))))" by simp
    from "3.IH"(2) [OF e [symmetric] refl this "3.prems"(2,3)] show ?thesis .
  qed
qed

lemma iter_subset: "n \<in> set (iter tg t) \<Longrightarrow> n \<in> set (iter_all t) \<and> tag n = tg"
  by (simp add: iter_def)

section \<open>Equality and similarity of attributes\<close>






















text \<open>
  When the pattern fits one of two equal ids only, both answers occur: here the ids are
  alike, \<open>a:id/bbbb c\<close> against \<open>bbbb c\<close> being rated 12/17.
\<close>

lemma attr_like_across_line_feed:
  "attr_equal
     (Element ''node'' [(''resource-id'', ''a:id/bbbb'' @ [CHR 0x0A] @ ''c'')] [])
     (Element ''node'' [(''resource-id'', ''a:id/bbbb c'')] []) ''resource-id'' None
   \<and> match_id (''a:id/bbbb'' @ [CHR 0x0A] @ ''c'') = None
   \<and> match_id ''a:id/bbbb c'' = Some ''bbbb c''
   \<and> attr_like indel_ratio
     (Element ''node'' [(''resource-id'', ''a:id/bbbb'' @ [CHR 0x0A] @ ''c'')] [])
     (Element ''node'' [(''resource-id'', ''a:id/bbbb c'')] []) ''resource-id'' None"
  by code_simp

section \<open>Loading a record\<close>

lemma load_ui_reads:
  "load_ui fs i = Inr (b, a) \<Longrightarrow>
     fs (ui_path (2 * i) ''.xml'') = Some (ui_x b) \<and> fs (ui_path (2 * i) ''.png'') = Some (ui_p b)
   \<and> fs (ui_path (2 * i + 1) ''.xml'') = Some (ui_x a) \<and> fs (ui_path (2 * i + 1) ''.png'') = Some (ui_p a)"
  by (auto simp: load_ui_def read_file_def mult.commute split: option.splits)

lemma load_steps_length: "load_steps fs i es = Inr r \<Longrightarrow> length r = length es"
  by (induction es arbitrary: i r) (auto split: if_splits sum.splits prod.splits)

lemma ui_position_0: "ui_position es 0 = 0"
  by (simp add: ui_position_def)

lemma ui_position_Suc:
  "ui_position (e # es) (Suc j) = (if generated e then 0 else 1) + ui_position es j"
  by (simp add: ui_position_def)

lemma load_steps_nth:
  "load_steps fs i es = Inr r \<Longrightarrow> k < length es \<Longrightarrow>
     event (r ! k) = es ! k \<and>
     (if generated (es ! k) then ui_before (r ! k) = empty_ui \<and> ui_after (r ! k) = empty_ui
      else load_ui fs (i + ui_position es k) = Inr (ui_before (r ! k), ui_after (r ! k)))"
proof (induction es arbitrary: i r k)
  case Nil
  then show ?case by simp
next
  case (Cons e es)
  show ?case
  proof (cases "generated e")
    case True
    with Cons.prems(1) obtain r' where r': "load_steps fs i es = Inr r'"
      and r: "r = \<lparr>event = e, ui_before = empty_ui, ui_after = empty_ui\<rparr> # r'"
      by (auto split: sum.splits)
    show ?thesis
    proof (cases k)
      case 0
      with True r show ?thesis by simp
    next
      case (Suc j)
      with Cons.prems(2) have j: "j < length es" by simp
      from Cons.IH [OF r' j] True Suc r show ?thesis by (simp add: ui_position_0 ui_position_Suc split: if_splits)
    qed
  next
    case False
    with Cons.prems(1) obtain b a r' where u: "load_ui fs i = Inr (b, a)"
      and r': "load_steps fs (i + 1) es = Inr r'"
      and r: "r = \<lparr>event = e, ui_before = b, ui_after = a\<rparr> # r'"
      by (auto split: sum.splits prod.splits)
    show ?thesis
    proof (cases k)
      case 0
      with False r u show ?thesis by (simp add: ui_position_0 ui_position_Suc split: if_splits)
    next
      case (Suc j)
      with Cons.prems(2) have j: "j < length es" by simp
      from Cons.IH [OF r' j] False Suc r show ?thesis by (simp add: ui_position_0 ui_position_Suc split: if_splits)
    qed
  qed
qed

lemma load_steps_events: "load_steps fs i es = Inr r \<Longrightarrow> map event r = es"
  by (induction es arbitrary: i r) (auto split: if_splits sum.splits prod.splits)

section \<open>The last element that passes a filter\<close>

lemma filter_last_split:
  "filter P xs \<noteq> [] \<Longrightarrow>
     \<exists>pre post. xs = pre @ last (filter P xs) # post \<and> P (last (filter P xs))
        \<and> (\<forall>m \<in> set post. \<not> P m)"
proof (induction xs rule: rev_induct)
  case Nil
  then show ?case by simp
next
  case (snoc x xs)
  show ?case
  proof (cases "P x")
    case True
    then have "xs @ [x] = xs @ last (filter P (xs @ [x])) # []" by simp
    with True show ?thesis by (metis empty_iff empty_set filter_append last_snoc filter.simps)
  next
    case False
    with snoc.prems have ne: "filter P xs \<noteq> []" by simp
    from snoc.IH [OF ne] obtain pre post where
      xs: "xs = pre @ last (filter P xs) # post" and p: "P (last (filter P xs))"
      and q: "\<forall>m \<in> set post. \<not> P m"
      by blast
    from False have f: "filter P (xs @ [x]) = filter P xs" by simp
    have "xs @ [x] = pre @ last (filter P xs) # (post @ [x])" using xs by simp
    moreover from q False have "\<forall>m \<in> set (post @ [x]). \<not> P m" by simp
    ultimately show ?thesis unfolding f using p by blast
  qed
qed

section \<open>Unknown criterion names\<close>

lemma criterion_of_name_unknown:
  "k \<notin> {''ID'', ''DESC'', ''CLASS'', ''TEXT''} \<Longrightarrow> criterion_of_name k = None"
  by (simp add: criterion_of_name_def)

lemma from_dict_items_filter:
  "from_dict_items kvs c
     = from_dict_items (filter (\<lambda>(k, v). k \<in> {''ID'', ''DESC'', ''CLASS'', ''TEXT''}) kvs) c"
proof (induction kvs arbitrary: c)
  case Nil
  show ?case by simp
next
  case (Cons kv kvs)
  obtain k v where kv: "kv = (k, v)" by (cases kv)
  show ?case
  proof (cases "k \<in> {''ID'', ''DESC'', ''CLASS'', ''TEXT''}")
    case True
    then show ?thesis using Cons.IH by (simp add: kv split: option.splits)
  next
    case False
    then have "criterion_of_name k = None" by (rule criterion_of_name_unknown)
    with False show ?thesis using Cons.IH by (simp add: kv)
  qed
qed

lemma map_result_nth:
  "map_result f xs = Inr ys \<Longrightarrow>
     length ys = length xs \<and> (\<forall>j < length xs. f (xs ! j) = Inr (ys ! j))"
proof (induction xs arbitrary: ys)
  case Nil
  then show ?case by simp
next
  case (Cons x xs)
  from Cons.prems obtain y ys' where y: "f x = Inr y" and r: "map_result f xs = Inr ys'"
    and ys: "ys = y # ys'"
    by (auto split: sum.splits)
  from Cons.IH [OF r] y ys show ?case by (auto simp: nth_Cons split: nat.splits)
qed

section \<open>Claims\<close>

text \<open>
  C1.  The claim: \<open>is_overlap(a, b)\<close> holds exactly when the bounds rectangles of
  \<open>a\<close> and \<open>b\<close> intersect on both axes.  The source computes the horizontal minimum as
  \<open>min(ax1, ax1)\<close>: for \<open>a\<close> at \<open>[50,0][100,100]\<close> and \<open>b\<close> at \<open>[0,0][40,100]\<close>, which
  lies wholly to the left of \<open>a\<close>, \<open>is_overlap\<close> answers true although the rectangles
  do not intersect.
\<close>

theorem is_overlap_left_neighbour:
  "is_overlap (Element ''node'' [(''bounds'', ''[50,0][100,100]'')] [])
              (Element ''node'' [(''bounds'', ''[0,0][40,100]'')] [])
   \<and> \<not> rectangles_intersect (Element ''node'' [(''bounds'', ''[50,0][100,100]'')] [])
              (Element ''node'' [(''bounds'', ''[0,0][40,100]'')] [])"
  by (simp add: is_overlap_def rectangles_intersect_def coordinates_def get_d_def
      coordinates_str_def match_bound_def pair_of_numbers_def number_def expect_def
      is_digit_def is_space_def int_of_digits_def digit_val_def)

text \<open>
  C6.  A locator whose criteria dictionary has the four criteria as keys (each at most
  once, as in any dictionary) is returned unchanged by \<open>from_dict\<close> after \<open>to_dict\<close>:
  same criteria in the same order, same index, hence equal under \<open>Locator.__eq__\<close>.
  Every key of the criteria mapping that is not the name of a criterion is dropped:
  an item with such a key leaves the loop of \<open>from_dict\<close> where it was, and \<open>from_dict\<close>
  gives the same result on a dictionary as on the dictionary without these items.
  The dictionary with \<open>TEXT\<close> and \<open>NAME\<close> deserialises to the criteria
  \<open>{TEXT: "Documents"}\<close> with index 0.
\<close>

theorem locator_round_trip:
  "(distinct (map fst (criteria l)) \<longrightarrow> from_dict (to_dict l) = Inr l)
   \<and> (k \<notin> {''ID'', ''DESC'', ''CLASS'', ''TEXT''}
        \<longrightarrow> from_dict_items ((k, v) # kvs) c = from_dict_items kvs c)
   \<and> from_dict ((''criteria'', PMap kvs) # d)
       = from_dict ((''criteria'',
            PMap (filter (\<lambda>(k, v). k \<in> {''ID'', ''DESC'', ''CLASS'', ''TEXT''}) kvs)) # d)
   \<and> from_dict [(''criteria'', PMap [(''TEXT'', ''Documents''), (''NAME'', ''bla'')])]
       = Inr \<lparr>criteria = [(TEXT, ''Documents'')], index = 0\<rparr>"
proof (intro conjI impI)
  assume d: "distinct (map fst (criteria l))"
  then have items: "from_dict_items (map (\<lambda>(k, v). (criterion_name k, v)) (criteria l)) []
      = criteria l"
    using from_dict_items_names [of "[]" "criteria l"] by simp
  show "from_dict (to_dict l) = Inr l"
    by (simp add: from_dict_def to_dict_def items)
next
  assume "k \<notin> {''ID'', ''DESC'', ''CLASS'', ''TEXT''}"
  then have "criterion_of_name k = None" by (rule criterion_of_name_unknown)
  then show "from_dict_items ((k, v) # kvs) c = from_dict_items kvs c" by simp
next
  show "from_dict ((''criteria'', PMap kvs) # d)
       = from_dict ((''criteria'',
            PMap (filter (\<lambda>(k, v). k \<in> {''ID'', ''DESC'', ''CLASS'', ''TEXT''}) kvs)) # d)"
    using from_dict_items_filter [of kvs "[]"]
    by (simp add: from_dict_def split: option.splits pyobj.splits)
next
  show "from_dict [(''criteria'', PMap [(''TEXT'', ''Documents''), (''NAME'', ''bla'')])]
       = Inr \<lparr>criteria = [(TEXT, ''Documents'')], index = 0\<rparr>"
    by (simp add: from_dict_def criterion_of_name_def)
qed

theorem locator_round_trip_witness:
  "distinct (map fst [(TEXT, ''Documents''), (ID, ''a:id/b'')])
   \<and> from_dict (to_dict \<lparr>criteria = [(TEXT, ''Documents''), (ID, ''a:id/b'')], index = 3\<rparr>)
       = Inr \<lparr>criteria = [(TEXT, ''Documents''), (ID, ''a:id/b'')], index = 3\<rparr>
   \<and> ''NAME'' \<notin> {''ID'', ''DESC'', ''CLASS'', ''TEXT''}
   \<and> from_dict_items [(''NAME'', ''bla''), (''TEXT'', ''Documents'')] []
       = from_dict_items [(''TEXT'', ''Documents'')] []"
  using locator_round_trip [of "\<lparr>criteria = [(TEXT, ''Documents''), (ID, ''a:id/b'')], index = 3\<rparr>"
      "''NAME''" "''bla''" "[(''TEXT'', ''Documents'')]" "[]" "[]"]
  by simp
text \<open>
  C10.  \<open>Criterion.__call__\<close> holds exactly when the node carries the attribute of the
  criterion with the identifier as its value, character for character.  A node without
  the attribute matches no identifier, the empty string included.  The text
  \<open>Documents\<close> is matched by the identifier \<open>Documents\<close>, but neither by \<open>documents\<close> nor
  by \<open>Documents\<close> followed by a blank, while \<open>attr_equal\<close> takes \<open>Documents\<close> and
  \<open>documents\<close> followed by a blank for equal.
\<close>

theorem criterion_call_exact:
  "(criterion_call c n ident \<longleftrightarrow> get n (criterion_attr c) = Some ident)
   \<and> (get n (criterion_attr c) = None \<longrightarrow> \<not> criterion_call c n ident')
   \<and> criterion_call TEXT (Element ''node'' [(''text'', ''Documents'')] []) ''Documents''
   \<and> \<not> criterion_call TEXT (Element ''node'' [(''text'', ''Documents'')] []) ''documents''
   \<and> \<not> criterion_call TEXT (Element ''node'' [(''text'', ''Documents'')] []) ''Documents ''
   \<and> attr_equal (Element ''node'' [(''text'', ''Documents'')] [])
        (Element ''node'' [(''text'', ''documents '')] []) ''text'' None
   \<and> \<not> criterion_call TEXT (Element ''node'' [] []) []"
proof -
  have a: "criterion_call c n ident \<longleftrightarrow> get n (criterion_attr c) = Some ident" for ident
    by (cases c) simp_all
  have b: "attr_equal (Element ''node'' [(''text'', ''Documents'')] [])
        (Element ''node'' [(''text'', ''documents '')] []) ''text'' None"
    by (simp add: norm_defs)
  show ?thesis
    using a b by (simp add: get_def)
qed

theorem criterion_call_exact_witness:
  "get (Element ''node'' [(''class'', ''x'')] []) (criterion_attr TEXT) = None
   \<and> \<not> criterion_call TEXT (Element ''node'' [(''class'', ''x'')] []) []"
  using criterion_call_exact [of TEXT "Element ''node'' [(''class'', ''x'')] []" "[]" "[]"]
  by (simp add: get_def)

text \<open>
  C9.  \<open>find_in_layout\<close> tests the index against the number of satisfying nodes from
  above only.  When at least one node of the tree satisfies every criterion, index
  \<open>-1\<close> yields a node that satisfies every criterion and after which, in document
  order, no node does: the last satisfying node.  An index below minus the number of
  satisfying nodes raises \<open>IndexError\<close>.  \<open>from_node\<close> produces index \<open>-1\<close> whenever
  the attribute it settles on has \<open>-1\<close> as its \<open>-index\<close> value; that is so for the
  class of a node whose text, content-desc and resource-id are empty and whose
  \<open>class-index\<close> is \<open>-1\<close>, as preprocessing leaves it for an empty class.
\<close>

theorem find_in_layout_negative_index:
  assumes "\<exists>m \<in> set (iter ''node'' tree). \<forall>(k, v) \<in> set (criteria l). criterion_call k m v"
  shows "(index l = - 1 \<longrightarrow>
           (\<exists>pre n post. iter ''node'' tree = pre @ n # post
              \<and> (\<forall>(k, v) \<in> set (criteria l). criterion_call k n v)
              \<and> (\<forall>m \<in> set post. \<exists>(k, v) \<in> set (criteria l). \<not> criterion_call k m v)
              \<and> find_in_layout l tree = Inr (Some n)))
       \<and> (index l < - int (length (filter (\<lambda>n. \<forall>(k, v) \<in> set (criteria l). criterion_call k n v)
                                      (iter ''node'' tree)))
            \<longrightarrow> find_in_layout l tree = Inl IndexError)
       \<and> (chosen_attr n = (a, c) \<and> get n (a @ ''-index'') = Some ''-1''
            \<longrightarrow> from_node n = Inr \<lparr>criteria = [(c, get_d n a [])], index = - 1\<rparr>)
       \<and> (get_d n ''text'' [] = [] \<and> get_d n ''content-desc'' [] = []
            \<and> get_d n ''resource-id'' [] = [] \<and> get n ''class-index'' = Some ''-1''
            \<longrightarrow> from_node n = Inr \<lparr>criteria = [(CLASS, get_d n ''class'' [])], index = - 1\<rparr>)"
proof (intro conjI impI)
  let ?P = "\<lambda>n. \<forall>(k, v) \<in> set (criteria l). criterion_call k n v"
  let ?m = "filter ?P (iter ''node'' tree)"
  have sat: "satisfying l tree = ?m" by (simp add: satisfying_def)
  from assms have ne: "?m \<noteq> []" by (auto simp: filter_empty_conv)
  { assume i: "index l = - 1"
    from filter_last_split [OF ne] obtain pre post where
      sp: "iter ''node'' tree = pre @ last ?m # post" and p: "?P (last ?m)"
      and q: "\<forall>m \<in> set post. \<not> ?P m"
      by blast
    have f: "find_in_layout l tree = Inr (Some (last ?m))"
      using ne by (simp add: find_in_layout_def sat i py_index_last)
    from q have "\<forall>m \<in> set post. \<exists>(k, v) \<in> set (criteria l). \<not> criterion_call k m v"
      by auto
    with sp p f show "\<exists>pre n post. iter ''node'' tree = pre @ n # post
              \<and> (\<forall>(k, v) \<in> set (criteria l). criterion_call k n v)
              \<and> (\<forall>m \<in> set post. \<exists>(k, v) \<in> set (criteria l). \<not> criterion_call k m v)
              \<and> find_in_layout l tree = Inr (Some n)"
      by blast }
  { assume i: "index l < - int (length ?m)"
    then have "\<not> int (length ?m) \<le> index l" by simp
    then show "find_in_layout l tree = Inl IndexError"
      using ne by (simp add: find_in_layout_def sat py_index_below [OF i]) }
  { assume "chosen_attr n = (a, c) \<and> get n (a @ ''-index'') = Some ''-1''"
    then show "from_node n = Inr \<lparr>criteria = [(c, get_d n a [])], index = - 1\<rparr>"
      using from_node_chosen by blast }
  { assume h: "get_d n ''text'' [] = [] \<and> get_d n ''content-desc'' [] = []
            \<and> get_d n ''resource-id'' [] = [] \<and> get n ''class-index'' = Some ''-1''"
    then have "chosen_attr n = (''class'', CLASS)" by (simp add: chosen_attr_def)
    moreover from h have "get n (''class'' @ ''-index'') = Some ''-1''" by simp
    ultimately show "from_node n = Inr \<lparr>criteria = [(CLASS, get_d n ''class'' [])], index = - 1\<rparr>"
      by (rule from_node_chosen) }
qed

theorem find_in_layout_negative_index_witness:
  "(\<exists>m \<in> set (iter ''node'' (preprocess (Element ''hierarchy'' []
        [Element ''node'' [(''class'', [])] [],
         Element ''node'' [(''class'', []), (''text'', [])] [],
         Element ''node'' [(''class'', ''android.widget.Button'')] []]))).
      \<forall>(k, v) \<in> set (criteria \<lparr>criteria = [(CLASS, [])], index = - 1\<rparr>). criterion_call k m v)
   \<and> find_in_layout \<lparr>criteria = [(CLASS, [])], index = - 1\<rparr>
        (preprocess (Element ''hierarchy'' []
          [Element ''node'' [(''class'', [])] [],
           Element ''node'' [(''class'', []), (''text'', [])] [],
           Element ''node'' [(''class'', ''android.widget.Button'')] []]))
       = Inr (Some (Element ''node'' [(''class'', []), (''text'', []), (''class-index'', ''-1''),
           (''resource-id-index'', ''-1''), (''content-desc-index'', ''-1''),
           (''text-index'', ''-1''), (''x'', ''0''), (''y'', ''0''), (''w'', ''0''), (''h'', ''0'')] []))
   \<and> find_in_layout \<lparr>criteria = [(CLASS, [])], index = - 3\<rparr>
        (preprocess (Element ''hierarchy'' []
          [Element ''node'' [(''class'', [])] [],
           Element ''node'' [(''class'', []), (''text'', [])] [],
           Element ''node'' [(''class'', ''android.widget.Button'')] []]))
       = Inl IndexError
   \<and> from_node (Element ''node'' [(''class'', []), (''class-index'', ''-1''),
           (''resource-id-index'', ''-1''), (''content-desc-index'', ''-1''),
           (''text-index'', ''-1''), (''x'', ''0''), (''y'', ''0''), (''w'', ''0''), (''h'', ''0'')] [])
       = Inr \<lparr>criteria = [(CLASS, [])], index = - 1\<rparr>"
proof -
  let ?t = "preprocess (Element ''hierarchy'' []
        [Element ''node'' [(''class'', [])] [],
         Element ''node'' [(''class'', []), (''text'', [])] [],
         Element ''node'' [(''class'', ''android.widget.Button'')] []])"
  let ?n1 = "Element ''node'' [(''class'', []), (''class-index'', ''-1''),
           (''resource-id-index'', ''-1''), (''content-desc-index'', ''-1''),
           (''text-index'', ''-1''), (''x'', ''0''), (''y'', ''0''), (''w'', ''0''), (''h'', ''0'')] []"
  let ?n2 = "Element ''node'' [(''class'', []), (''text'', []), (''class-index'', ''-1''),
           (''resource-id-index'', ''-1''), (''content-desc-index'', ''-1''),
           (''text-index'', ''-1''), (''x'', ''0''), (''y'', ''0''), (''w'', ''0''), (''h'', ''0'')] []"
  let ?n3 = "Element ''node'' [(''class'', ''android.widget.Button''), (''class-index'', ''0''),
           (''resource-id-index'', ''-1''), (''content-desc-index'', ''-1''),
           (''text-index'', ''-1''), (''x'', ''0''), (''y'', ''0''), (''w'', ''0''), (''h'', ''0'')] []"
  let ?l = "\<lparr>criteria = [(CLASS, [])], index = - 1\<rparr>"
  let ?l3 = "\<lparr>criteria = [(CLASS, [])], index = - 3\<rparr>"
  have t: "?t = Element ''hierarchy'' [] [?n1, ?n2, ?n3]" by code_simp
  have it: "iter ''node'' ?t = [?n1, ?n2, ?n3]" unfolding t by (simp add: iter_def)
  have c1: "criterion_call CLASS ?n1 []" and c2: "criterion_call CLASS ?n2 []"
    and c3: "\<not> criterion_call CLASS ?n3 []"
    by (simp_all add: get_def)
  have hyp: "\<exists>m \<in> set (iter ''node'' ?t). \<forall>(k, v) \<in> set (criteria ?l). criterion_call k m v"
    unfolding it using c1 by simp
  have hyp3: "\<exists>m \<in> set (iter ''node'' ?t). \<forall>(k, v) \<in> set (criteria ?l3). criterion_call k m v"
    unfolding it using c1 by simp
  from find_in_layout_negative_index [OF hyp, of ?n1 "''class''" CLASS]
  obtain pre n post where sp: "[?n1, ?n2, ?n3] = pre @ n # post"
    and pn: "criterion_call CLASS n []"
    and pp: "\<forall>m \<in> set post. \<not> criterion_call CLASS m []"
    and f: "find_in_layout ?l ?t = Inr (Some n)"
    unfolding it by auto
  from sp consider "n = ?n1 \<and> post = [?n2, ?n3]" | "n = ?n2 \<and> post = [?n3]" | "n = ?n3"
    by (auto simp: Cons_eq_append_conv)
  then have n: "n = ?n2"
  proof cases
    case 1
    with pp c2 show ?thesis by simp
  next
    case 2
    then show ?thesis by simp
  next
    case 3
    with pn c3 show ?thesis by simp
  qed
  have cnt: "length (filter (\<lambda>n. \<forall>(k, v) \<in> set (criteria ?l3). criterion_call k n v)
      (iter ''node'' ?t)) = 2"
    unfolding it using c1 c2 c3 by simp
  from find_in_layout_negative_index [OF hyp3, of ?n1 "''class''" CLASS] cnt
  have e: "find_in_layout ?l3 ?t = Inl IndexError" by simp
  have "get_d ?n1 ''text'' [] = [] \<and> get_d ?n1 ''content-desc'' [] = []
      \<and> get_d ?n1 ''resource-id'' [] = [] \<and> get ?n1 ''class-index'' = Some ''-1''"
    by (simp add: get_d_def get_def)
  with find_in_layout_negative_index [OF hyp, of ?n1 "''class''" CLASS]
  have fn: "from_node ?n1 = Inr \<lparr>criteria = [(CLASS, get_d ?n1 ''class'' [])], index = - 1\<rparr>"
    by blast
  have "get_d ?n1 ''class'' [] = []" by (simp add: get_d_def)
  with fn have fn': "from_node ?n1 = Inr ?l" by simp
  from hyp f n e fn' show ?thesis by simp
qed
text \<open>
  C4.  The claim: after \<open>preprocess\<close> every descendant node has \<open>w \<ge> 0\<close>, \<open>h \<ge> 0\<close>,
  non-negative \<open>x + w\<close> and \<open>y + h\<close>, and an \<open>-index\<close> field \<open>\<ge> 0\<close> for every non-empty
  value of class, resource-id, content-desc and text.  It fails twice.  The bounds
  \<open>[10,20][5,50]\<close> give \<open>w = -5\<close>, since \<open>denote_bounds\<close> writes \<open>x1 - x0\<close> as it is; and
  a node whose resource-id starts with \<open>com.google.android\<close> is skipped by
  \<open>denote_index\<close> and gets no \<open>-index\<close> field at all.
\<close>

theorem preprocess_negative_width_and_skipped_node:
  "map (\<lambda>n. (int_attr n ''w'', get_d n ''resource-id'' [], get n ''resource-id-index''))
     (iter ''node'' (preprocess (Element ''hierarchy'' []
       [Element ''node'' [(''bounds'', ''[10,20][5,50]'')] [],
        Element ''node'' [(''resource-id'', ''com.google.android.gms:id/a'')] []])))
   = [(Inr (- 5), [], Some ''-1''), (Inr 0, ''com.google.android.gms:id/a'', None)]"
  by code_simp

text \<open>
  C4, as the code has it.  After \<open>preprocess\<close> every node carries \<open>x\<close>, \<open>y\<close>, \<open>w\<close> and \<open>h\<close>
  as decimal integers with \<open>x\<close>, \<open>y\<close>, \<open>x + w\<close> and \<open>y + h\<close> non-negative: they are the
  four numbers of its bounds, so \<open>w\<close> and \<open>h\<close> are non-negative exactly when the bounds
  are ordered.  Every node whose resource-id does not start with \<open>com.google.android\<close>
  carries, for each non-empty value of the four attributes, the \<open>-index\<close> field with a
  value \<open>\<ge> 0\<close>.
\<close>

theorem preprocess_fields:
  assumes "n \<in> set (iter ''node'' (preprocess tr))"
  shows "(\<exists>x y w h. get n ''x'' = Some (str_int x) \<and> get n ''y'' = Some (str_int y)
            \<and> get n ''w'' = Some (str_int w) \<and> get n ''h'' = Some (str_int h)
            \<and> int_attr n ''x'' = Inr x \<and> int_attr n ''y'' = Inr y
            \<and> int_attr n ''w'' = Inr w \<and> int_attr n ''h'' = Inr h
            \<and> 0 \<le> x \<and> 0 \<le> y \<and> 0 \<le> x + w \<and> 0 \<le> y + h
            \<and> coordinates n = (x, y, x + w, y + h))
       \<and> (\<not> startswith (get_d n ''resource-id'' []) ''com.google.android'' \<longrightarrow>
            (\<forall>k \<in> set counter_keys. get_d n k [] \<noteq> [] \<longrightarrow>
               (\<exists>s i. get n (k @ ''-index'') = Some s \<and> py_int s = Inr (int i))))"
proof -
  let ?t = "denote_index (remove_node tr (\<lambda>n. get n ''package'' = Some ''com.android.systemui''))"
  from assms have n: "n \<in> set (iter_all (denote_bounds ?t))" and tg: "tag n = ''node''"
    by (auto simp: preprocess_def dest: iter_subset)
  from denote_bounds_nodes [OF n] tg obtain m where
    m: "m \<in> set (iter_all ?t)" and tm: "tag m = ''node''" and a: "attrib n = bounds_attrs m"
    by auto
  obtain x0 y0 x1 y1 where c: "coordinates m = (x0, y0, x1, y1)" by (cases "coordinates m")
  have mp: "map_of (attrib n) = (map_of (attrib m))(''x'' \<mapsto> str_int x0, ''y'' \<mapsto> str_int y0,
           ''w'' \<mapsto> str_int (x1 - x0), ''h'' \<mapsto> str_int (y1 - y0))"
    by (simp add: a map_of_bounds_attrs c)
  have cn: "coordinates n = (x0, y0, x1, y1)"
    using c by (simp add: coordinates_def get_d_def mp)
  from coordinates_nonneg [OF c] have nn: "0 \<le> x0" "0 \<le> y0" "0 \<le> x1" "0 \<le> y1" by simp_all
  have fields: "int_attr n ''x'' = Inr x0" "int_attr n ''y'' = Inr y0"
    "int_attr n ''w'' = Inr (x1 - x0)" "int_attr n ''h'' = Inr (y1 - y0)"
    by (simp_all add: int_attr_def get_d_def mp py_int_str_int)
  have carried: "get n ''x'' = Some (str_int x0)" "get n ''y'' = Some (str_int y0)"
    "get n ''w'' = Some (str_int (x1 - x0))" "get n ''h'' = Some (str_int (y1 - y0))"
    by (simp_all add: get_def mp)
  have "get n ''x'' = Some (str_int x0) \<and> get n ''y'' = Some (str_int y0)
            \<and> get n ''w'' = Some (str_int (x1 - x0)) \<and> get n ''h'' = Some (str_int (y1 - y0))
            \<and> int_attr n ''x'' = Inr x0 \<and> int_attr n ''y'' = Inr y0
            \<and> int_attr n ''w'' = Inr (x1 - x0) \<and> int_attr n ''h'' = Inr (y1 - y0)
            \<and> 0 \<le> x0 \<and> 0 \<le> y0 \<and> 0 \<le> x0 + (x1 - x0) \<and> 0 \<le> y0 + (y1 - y0)
            \<and> coordinates n = (x0, y0, x0 + (x1 - x0), y0 + (y1 - y0))"
    using carried fields nn cn by simp
  then have first: "\<exists>x y w h. get n ''x'' = Some (str_int x) \<and> get n ''y'' = Some (str_int y)
            \<and> get n ''w'' = Some (str_int w) \<and> get n ''h'' = Some (str_int h)
            \<and> int_attr n ''x'' = Inr x \<and> int_attr n ''y'' = Inr y
            \<and> int_attr n ''w'' = Inr w \<and> int_attr n ''h'' = Inr h
            \<and> 0 \<le> x \<and> 0 \<le> y \<and> 0 \<le> x + w \<and> 0 \<le> y + h
            \<and> coordinates n = (x, y, x + w, y + h)"
    by blast
  have second: "\<exists>s i. get n (k @ ''-index'') = Some s \<and> py_int s = Inr (int i)"
    if ns: "\<not> startswith (get_d n ''resource-id'' []) ''com.google.android''"
      and k: "k \<in> set counter_keys" and v: "get_d n k [] \<noteq> []" for k
  proof -
    have same: "attr_or_empty (attrib n) k' = attr_or_empty (attrib m) k'"
      if "k' \<in> set counter_keys" for k'
      using that by (auto simp: attr_or_empty_def mp counter_keys_def)
    have "attr_or_empty (attrib n) ''resource-id'' = attr_or_empty (attrib m) ''resource-id''"
      by (simp add: attr_or_empty_def mp)
    with ns have "\<not> skipped (attrib m)" by (simp add: skipped_def get_d_attr_or_empty)
    with denote_index_nodes(1) [of m _ "\<lambda>k v. 0"] m tm have "indexed (attrib m)"
      by (simp add: denote_index_def)
    with k obtain s where s: "map_of (attrib m) (k @ ''-index'') = Some s"
      and sv: "if attr_or_empty (attrib m) k \<noteq> [] then \<exists>i. s = str_nat i else s = str_int (- 1)"
      unfolding indexed_def by blast
    from v same [OF k] have "attr_or_empty (attrib m) k \<noteq> []" by (simp add: get_d_attr_or_empty)
    with sv obtain i where i: "s = str_nat i" by auto
    from k have "map_of (attrib n) (k @ ''-index'') = map_of (attrib m) (k @ ''-index'')"
      by (auto simp: mp counter_keys_def)
    with s i show ?thesis by (auto simp: get_def py_int_str_nat)
  qed
  from first second show ?thesis by blast
qed

theorem preprocess_fields_witness:
  "Element ''node''
      [(''text'', ''a''), (''bounds'', ''[1,2][3,5]''), (''class-index'', ''-1''),
       (''resource-id-index'', ''-1''), (''content-desc-index'', ''-1''), (''text-index'', ''0''),
       (''x'', ''1''), (''y'', ''2''), (''w'', ''2''), (''h'', ''3'')] []
     \<in> set (iter ''node'' (preprocess (Element ''hierarchy'' []
           [Element ''node'' [(''text'', ''a''), (''bounds'', ''[1,2][3,5]'')] []])))
   \<and> (\<exists>s i. get (Element ''node''
      [(''text'', ''a''), (''bounds'', ''[1,2][3,5]''), (''class-index'', ''-1''),
       (''resource-id-index'', ''-1''), (''content-desc-index'', ''-1''), (''text-index'', ''0''),
       (''x'', ''1''), (''y'', ''2''), (''w'', ''2''), (''h'', ''3'')] []) (''text'' @ ''-index'')
       = Some s \<and> py_int s = Inr (int i))
   \<and> (\<exists>w. get (Element ''node''
      [(''text'', ''a''), (''bounds'', ''[1,2][3,5]''), (''class-index'', ''-1''),
       (''resource-id-index'', ''-1''), (''content-desc-index'', ''-1''), (''text-index'', ''0''),
       (''x'', ''1''), (''y'', ''2''), (''w'', ''2''), (''h'', ''3'')] []) ''w'' = Some (str_int w)
       \<and> 0 \<le> 1 + w)"
proof -
  let ?T = "Element ''hierarchy'' []
           [Element ''node'' [(''text'', ''a''), (''bounds'', ''[1,2][3,5]'')] []]"
  let ?N = "Element ''node''
      [(''text'', ''a''), (''bounds'', ''[1,2][3,5]''), (''class-index'', ''-1''),
       (''resource-id-index'', ''-1''), (''content-desc-index'', ''-1''), (''text-index'', ''0''),
       (''x'', ''1''), (''y'', ''2''), (''w'', ''2''), (''h'', ''3'')] []"
  have t: "preprocess ?T = Element ''hierarchy'' [] [?N]" by code_simp
  have mem: "?N \<in> set (iter ''node'' (preprocess ?T))"
    unfolding t by (simp add: iter_def)
  have ns: "\<not> startswith (get_d ?N ''resource-id'' []) ''com.google.android''"
    by (simp add: startswith_def get_d_def)
  have k: "''text'' \<in> set counter_keys" by (simp add: counter_keys_def)
  have v: "get_d ?N ''text'' [] \<noteq> []" by (simp add: get_d_def)
  note f = preprocess_fields [OF mem]
  from f ns k v have idx: "\<exists>s i. get ?N (''text'' @ ''-index'') = Some s \<and> py_int s = Inr (int i)"
    by blast
  from f obtain x y w h where g: "get ?N ''w'' = Some (str_int w)" and ix: "int_attr ?N ''x'' = Inr x"
    and nn: "0 \<le> x + w"
    by blast
  have "int_attr ?N ''x'' = Inr 1" by code_simp
  with ix have "x = 1" by simp
  with g nn have "\<exists>w. get ?N ''w'' = Some (str_int w) \<and> 0 \<le> 1 + w" by blast
  with mem idx show ?thesis by (intro conjI)
qed




text \<open>
  C8.  When \<open>load_testcase\<close> returns, the record file was there, every line of it that is
  not blank was parsed into an event, and there is one step for each of these events,
  in their order, carrying it.  A step whose event has a true \<open>generated\<close> parameter
  has two empty snapshots.  Every other step, whose event is at position \<open>i\<close> among the
  events that are not generated, has \<open>ui_before\<close> read from \<open>ui/(2i).xml\<close> and
  \<open>ui/(2i).png\<close> and \<open>ui_after\<close> read from \<open>ui/(2i+1).xml\<close> and \<open>ui/(2i+1).png\<close>:
  generated events do not advance the snapshot counter.
\<close>

theorem load_testcase_ui_numbering:
  assumes "load_testcase fs from_json generate = Inr (steps, pretest)"
  shows "\<exists>events_str events.
           fs (if generate then ''record_with_assertion.txt'' else ''record.txt'') = Some events_str
         \<and> length events = length (filter (\<lambda>x. length (strip x) \<noteq> 0) (split_lines events_str))
         \<and> (\<forall>j < length events.
               from_json (filter (\<lambda>x. length (strip x) \<noteq> 0) (split_lines events_str) ! j)
                 = Inr (events ! j))
         \<and> length steps = length events
         \<and> (\<forall>k < length events.
               event (steps ! k) = events ! k
             \<and> (if generated (events ! k)
                then ui_before (steps ! k) = empty_ui \<and> ui_after (steps ! k) = empty_ui
                else fs (ui_path (2 * ui_position events k) ''.xml'')
                       = Some (ui_x (ui_before (steps ! k)))
                   \<and> fs (ui_path (2 * ui_position events k) ''.png'')
                       = Some (ui_p (ui_before (steps ! k)))
                   \<and> fs (ui_path (2 * ui_position events k + 1) ''.xml'')
                       = Some (ui_x (ui_after (steps ! k)))
                   \<and> fs (ui_path (2 * ui_position events k + 1) ''.png'')
                       = Some (ui_p (ui_after (steps ! k)))))"
proof -
  let ?name = "if generate then ''record_with_assertion.txt'' else ''record.txt''"
  from assms obtain events_str events where
    rd: "fs ?name = Some events_str"
    and mr: "map_result from_json (filter (\<lambda>x. length (strip x) \<noteq> 0) (split_lines events_str))
               = Inr events"
    and ls: "load_steps fs 0 events = Inr steps"
    by (auto simp: load_testcase_def Let_def read_file_def split: sum.splits option.splits)
  from map_result_nth [OF mr] have
    len: "length events = length (filter (\<lambda>x. length (strip x) \<noteq> 0) (split_lines events_str))"
    and parsed: "\<forall>j < length events.
               from_json (filter (\<lambda>x. length (strip x) \<noteq> 0) (split_lines events_str) ! j)
                 = Inr (events ! j)"
    by simp_all
  from load_steps_length [OF ls] have sl: "length steps = length events" .
  have each: "event (steps ! k) = events ! k
             \<and> (if generated (events ! k)
                then ui_before (steps ! k) = empty_ui \<and> ui_after (steps ! k) = empty_ui
                else fs (ui_path (2 * ui_position events k) ''.xml'')
                       = Some (ui_x (ui_before (steps ! k)))
                   \<and> fs (ui_path (2 * ui_position events k) ''.png'')
                       = Some (ui_p (ui_before (steps ! k)))
                   \<and> fs (ui_path (2 * ui_position events k + 1) ''.xml'')
                       = Some (ui_x (ui_after (steps ! k)))
                   \<and> fs (ui_path (2 * ui_position events k + 1) ''.png'')
                       = Some (ui_p (ui_after (steps ! k))))"
    if k: "k < length events" for k
  proof -
    from load_steps_nth [OF ls k] have e: "event (steps ! k) = events ! k"
      and u: "if generated (events ! k)
              then ui_before (steps ! k) = empty_ui \<and> ui_after (steps ! k) = empty_ui
              else load_ui fs (ui_position events k) = Inr (ui_before (steps ! k), ui_after (steps ! k))"
      by (simp_all split: if_splits)
    from u have "if generated (events ! k)
                then ui_before (steps ! k) = empty_ui \<and> ui_after (steps ! k) = empty_ui
                else fs (ui_path (2 * ui_position events k) ''.xml'')
                       = Some (ui_x (ui_before (steps ! k)))
                   \<and> fs (ui_path (2 * ui_position events k) ''.png'')
                       = Some (ui_p (ui_before (steps ! k)))
                   \<and> fs (ui_path (2 * ui_position events k + 1) ''.xml'')
                       = Some (ui_x (ui_after (steps ! k)))
                   \<and> fs (ui_path (2 * ui_position events k + 1) ''.png'')
                       = Some (ui_p (ui_after (steps ! k)))"
      by (auto dest: load_ui_reads split: if_splits)
    with e show ?thesis by simp
  qed
  from rd len parsed sl each show ?thesis by blast
qed

theorem load_testcase_ui_numbering_witness:
  "load_testcase
     (map_of [(''record.txt'', [CHR ''c'', CHR 0x0A, CHR ''g'', CHR 0x0A, CHR 0x0A, CHR ''c'']),
        (''ui/0.xml'', ''x0''), (''ui/0.png'', ''p0''), (''ui/1.xml'', ''x1''), (''ui/1.png'', ''p1''),
        (''ui/2.xml'', ''x2''), (''ui/2.png'', ''p2''), (''ui/3.xml'', ''x3''), (''ui/3.png'', ''p3'')])
     (\<lambda>s. if s = ''c'' then Inr \<lparr>action = CLICK, locator = None, parameter = []\<rparr>
          else if s = ''g''
          then Inr \<lparr>action = EXIST, locator = None, parameter = [(''generated'', PBool True)]\<rparr>
          else Inl ValueError)
     False
   = Inr ([\<lparr>event = \<lparr>action = CLICK, locator = None, parameter = []\<rparr>,
             ui_before = \<lparr>ui_x = ''x0'', ui_p = ''p0''\<rparr>, ui_after = \<lparr>ui_x = ''x1'', ui_p = ''p1''\<rparr>\<rparr>,
           \<lparr>event = \<lparr>action = EXIST, locator = None, parameter = [(''generated'', PBool True)]\<rparr>,
             ui_before = empty_ui, ui_after = empty_ui\<rparr>,
           \<lparr>event = \<lparr>action = CLICK, locator = None, parameter = []\<rparr>,
             ui_before = \<lparr>ui_x = ''x2'', ui_p = ''p2''\<rparr>, ui_after = \<lparr>ui_x = ''x3'', ui_p = ''p3''\<rparr>\<rparr>],
          None)
   \<and> ui_position
        [\<lparr>action = CLICK, locator = None, parameter = []\<rparr>,
         \<lparr>action = EXIST, locator = None, parameter = [(''generated'', PBool True)]\<rparr>,
         \<lparr>action = CLICK, locator = None, parameter = []\<rparr>] 2 = 1
   \<and> ui_path (2 * 1) ''.xml'' = ''ui/2.xml''
   \<and> map_of [(''record.txt'', [CHR ''c'', CHR 0x0A, CHR ''g'', CHR 0x0A, CHR 0x0A, CHR ''c'']),
        (''ui/0.xml'', ''x0''), (''ui/0.png'', ''p0''), (''ui/1.xml'', ''x1''), (''ui/1.png'', ''p1''),
        (''ui/2.xml'', ''x2''), (''ui/2.png'', ''p2''), (''ui/3.xml'', ''x3''), (''ui/3.png'', ''p3'')]
       (ui_path (2 * 1) ''.xml'') = Some ''x2''"
proof -
  let ?fs = "map_of [(''record.txt'', [CHR ''c'', CHR 0x0A, CHR ''g'', CHR 0x0A, CHR 0x0A, CHR ''c'']),
        (''ui/0.xml'', ''x0''), (''ui/0.png'', ''p0''), (''ui/1.xml'', ''x1''), (''ui/1.png'', ''p1''),
        (''ui/2.xml'', ''x2''), (''ui/2.png'', ''p2''), (''ui/3.xml'', ''x3''), (''ui/3.png'', ''p3'')]"
  let ?fj = "\<lambda>s. if s = ''c'' then Inr \<lparr>action = CLICK, locator = None, parameter = []\<rparr>
          else if s = ''g''
          then Inr \<lparr>action = EXIST, locator = None, parameter = [(''generated'', PBool True)]\<rparr>
          else Inl ValueError"
  let ?steps = "[\<lparr>event = \<lparr>action = CLICK, locator = None, parameter = []\<rparr>,
             ui_before = \<lparr>ui_x = ''x0'', ui_p = ''p0''\<rparr>, ui_after = \<lparr>ui_x = ''x1'', ui_p = ''p1''\<rparr>\<rparr>,
           \<lparr>event = \<lparr>action = EXIST, locator = None, parameter = [(''generated'', PBool True)]\<rparr>,
             ui_before = empty_ui, ui_after = empty_ui\<rparr>,
           \<lparr>event = \<lparr>action = CLICK, locator = None, parameter = []\<rparr>,
             ui_before = \<lparr>ui_x = ''x2'', ui_p = ''p2''\<rparr>, ui_after = \<lparr>ui_x = ''x3'', ui_p = ''p3''\<rparr>\<rparr>]"
  let ?c = "\<lparr>action = CLICK, locator = None, parameter = []\<rparr>"
  let ?g = "\<lparr>action = EXIST, locator = None, parameter = [(''generated'', PBool True)]\<rparr>"
  have eq: "load_testcase ?fs ?fj False = Inr (?steps, None)"
    by code_simp
  have path: "ui_path (2 * 1) ''.xml'' = ''ui/2.xml''"
    by code_simp
  have rec: "?fs ''record.txt'' = Some [CHR ''c'', CHR 0x0A, CHR ''g'', CHR 0x0A, CHR 0x0A, CHR ''c'']"
    by simp
  have lines: "filter (\<lambda>x. length (strip x) \<noteq> 0)
      (split_lines [CHR ''c'', CHR 0x0A, CHR ''g'', CHR 0x0A, CHR 0x0A, CHR ''c''])
      = [''c'', ''g'', ''c'']"
    by code_simp
  from load_testcase_ui_numbering [OF eq, unfolded if_False] obtain events_str events where
    a: "?fs ''record.txt'' = Some events_str"
    and b: "length events = length (filter (\<lambda>x. length (strip x) \<noteq> 0) (split_lines events_str))"
    and c: "\<forall>j < length events.
               ?fj (filter (\<lambda>x. length (strip x) \<noteq> 0) (split_lines events_str) ! j)
                 = Inr (events ! j)"
    and sl: "length ?steps = length events"
    and d: "\<forall>k < length events.
               event (?steps ! k) = events ! k
             \<and> (if generated (events ! k)
                then ui_before (?steps ! k) = empty_ui \<and> ui_after (?steps ! k) = empty_ui
                else ?fs (ui_path (2 * ui_position events k) ''.xml'')
                       = Some (ui_x (ui_before (?steps ! k)))
                   \<and> ?fs (ui_path (2 * ui_position events k) ''.png'')
                       = Some (ui_p (ui_before (?steps ! k)))
                   \<and> ?fs (ui_path (2 * ui_position events k + 1) ''.xml'')
                       = Some (ui_x (ui_after (?steps ! k)))
                   \<and> ?fs (ui_path (2 * ui_position events k + 1) ''.png'')
                       = Some (ui_p (ui_after (?steps ! k))))"
    by (elim exE conjE) (rule that)
  from a rec have es: "events_str = [CHR ''c'', CHR 0x0A, CHR ''g'', CHR 0x0A, CHR 0x0A, CHR ''c'']"
    by simp
  from b have len: "length events = 3"
    unfolding es lines by simp
  from c have c3: "?fj ([''c'', ''g'', ''c''] ! j) = Inr (events ! j)" if "j < 3" for j
    using that unfolding es lines len by blast
  from c3 [of 0] c3 [of 1] c3 [of 2] have n: "events ! 0 = ?c" "events ! 1 = ?g" "events ! 2 = ?c"
    by simp_all
  have ev: "events = [?c, ?g, ?c]"
  proof (rule nth_equalityI)
    show "length events = length [?c, ?g, ?c]" using len by simp
  next
    fix i assume "i < length events"
    with len have "i = 0 \<or> i = 1 \<or> i = 2" by auto
    with n show "events ! i = [?c, ?g, ?c] ! i" by auto
  qed
  have pos: "ui_position [?c, ?g, ?c] 2 = 1"
    by (simp add: ui_position_def generated_def)
  have g: "\<not> generated ([?c, ?g, ?c] ! 2)"
    by (simp add: generated_def)
  have lt: "2 < length events"
    using len by simp
  note d2 = d [rule_format, OF lt, THEN conjunct2, unfolded ev]
  from d2 g have "?fs (ui_path (2 * ui_position [?c, ?g, ?c] 2) ''.xml'')
      = Some (ui_x (ui_before (?steps ! 2)))"
    by presburger
  then have r: "?fs (ui_path (2 * 1) ''.xml'') = Some (ui_x (ui_before (?steps ! 2)))"
    unfolding pos .
  have "ui_x (ui_before (?steps ! 2)) = ''x2''" by simp
  with r have last: "?fs (ui_path (2 * 1) ''.xml'') = Some ''x2''" by simp
  from eq pos path last show ?thesis by (intro conjI)
qed


end
